theory Spec2Isabelle
  imports Complex_Main "HOL-Library.Sublist" "HOL-Library.Multiset"
    "HOL-Library.Char_ord" "HOL-Library.List_Lexorder"
begin

section \<open>The identity resolver (SQL function \<open>get_user_wallet_address\<close>)\<close>

text \<open>
  An identity is a wallet address string. A uuid is represented by its canonical text,
  so the cast \<open>auth.uid()::text\<close> is the identity on the model. \<open>auth.email()\<close> is NULL
  for a principal without an email: \<open>None\<close>.
\<close>

type_synonym identity = string
type_synonym uuid = string

record principal =
  auth_email :: "string option"
  auth_uid :: uuid

datatype sql_error = InvalidFieldPosition | RowSecurityViolation | UniqueViolation

text \<open>
  \<open>string LIKE pattern\<close>: \<open>%\<close> matches any sequence of characters, \<open>_\<close> any single
  character, every other pattern character itself (the pattern of the source has no
  escape character). The whole string must match.
\<close>

fun like :: "string \<Rightarrow> string \<Rightarrow> bool" where
  "like [] [] = True"
| "like (c # cs) [] = False"
| "like [] (p # ps) = (p = CHR ''%'' \<and> like [] ps)"
| "like (c # cs) (p # ps) =
     (if p = CHR ''%'' then like (c # cs) ps \<or> like cs (p # ps)
      else (p = CHR ''_'' \<or> p = c) \<and> like cs ps)"

text \<open>
  \<open>split_part(string, delimiter, n)\<close>: the string is split at every occurrence of the
  delimiter (here a single character) and the \<open>n\<close>-th field is returned, counting from
  one; the empty string when there are fewer fields; position zero is an error.
\<close>

fun split_fields :: "char \<Rightarrow> string \<Rightarrow> string list" where
  "split_fields d [] = [[]]"
| "split_fields d (c # cs) =
     (if c = d then [] # split_fields d cs
      else (case split_fields d cs of
              [] \<Rightarrow> [[c]]
            | f # fs \<Rightarrow> (c # f) # fs))"

definition split_part :: "string \<Rightarrow> char \<Rightarrow> nat \<Rightarrow> sql_error + string" where
  "split_part s d n =
     (if n = 0 then Inl InvalidFieldPosition
      else if n \<le> length (split_fields d s) then Inr (split_fields d s ! (n - 1))
      else Inr [])"

text \<open>
  \<^verbatim>\<open>SELECT COALESCE(CASE WHEN auth.email() LIKE '%@kraken.web3'
                        THEN split_part(auth.email(), '@', 1)
                        ELSE auth.uid()::text END)\<close>
  A NULL email makes the \<open>LIKE\<close> test NULL, and \<open>CASE\<close> then takes the \<open>ELSE\<close> branch.
\<close>

definition get_user_wallet_address :: "principal \<Rightarrow> sql_error + identity" where
  "get_user_wallet_address p =
     (case auth_email p of
        None \<Rightarrow> Inr (auth_uid p)
      | Some e \<Rightarrow>
          if like e ''%@kraken.web3'' then split_part e (CHR ''@'') 1
          else Inr (auth_uid p))"

section \<open>Tables, row-level policies and triggers of the migration\<close>

text \<open>
  Rows carry the columns the policies and triggers read or write. Column names are
  prefixed by the table (\<open>c_\<close> conversations, \<open>m_\<close> messages, \<open>a_\<close> attachments).
  A \<open>timestamptz\<close> is a point on an integer time line.
\<close>

type_synonym timestamptz = int

record conversations_row =
  c_id :: uuid
  c_participants :: "identity list"
  c_last_message :: string
  c_last_message_time :: timestamptz
  c_updated_at :: timestamptz
  c_is_group :: bool
  c_group_name :: string
  c_group_avatar :: string

record messages_row =
  m_id :: uuid
  m_conversation_id :: "uuid option"
  m_sender :: identity
  m_receiver :: identity
  m_content :: string
  m_created_at :: timestamptz

record attachments_row =
  a_message_id :: uuid

record storage_object =
  bucket_id :: string
  object_name :: string

record database =
  conversations :: "conversations_row list"
  messages :: "messages_row list"
  attachments :: "attachments_row list"

definition empty_database :: database where
  "empty_database = \<lparr>conversations = [], messages = [], attachments = []\<rparr>"

text \<open>\<open>get_user_wallet_address() = ANY(participants)\<close>\<close>

definition wallet_address_any :: "principal \<Rightarrow> identity list \<Rightarrow> bool" where
  "wallet_address_any p ps =
     (case get_user_wallet_address p of Inl e \<Rightarrow> False | Inr w \<Rightarrow> w \<in> set ps)"

definition conversations_select_policy :: "principal \<Rightarrow> conversations_row \<Rightarrow> bool" where
  "conversations_select_policy p c = wallet_address_any p (c_participants c)"

definition conversations_insert_policy :: "principal \<Rightarrow> conversations_row \<Rightarrow> bool" where
  "conversations_insert_policy p c = wallet_address_any p (c_participants c)"

definition conversations_update_policy :: "principal \<Rightarrow> conversations_row \<Rightarrow> bool" where
  "conversations_update_policy p c = wallet_address_any p (c_participants c)"

definition messages_select_policy :: "principal \<Rightarrow> messages_row \<Rightarrow> bool" where
  "messages_select_policy p m =
     (get_user_wallet_address p = Inr (m_sender m)
      \<or> get_user_wallet_address p = Inr (m_receiver m))"

definition messages_insert_policy :: "principal \<Rightarrow> messages_row \<Rightarrow> bool" where
  "messages_insert_policy p m = (get_user_wallet_address p = Inr (m_sender m))"

definition messages_update_policy :: "principal \<Rightarrow> messages_row \<Rightarrow> bool" where
  "messages_update_policy p m = (get_user_wallet_address p = Inr (m_sender m))"

text \<open>
  \<^verbatim>\<open>EXISTS (SELECT 1 FROM messages m JOIN conversations c ON c.id = m.conversation_id
          WHERE m.id = attachments.message_id
            AND get_user_wallet_address() = ANY(c.participants))\<close>
  The policy is not \<open>SECURITY DEFINER\<close>: the subquery runs with the rights of the
  caller, and row-level security (enabled on both tables) shows it the messages that
  pass \<open>messages_select_policy\<close> and the conversations that pass
  \<open>conversations_select_policy\<close> only.
\<close>

definition visible_messages :: "principal \<Rightarrow> database \<Rightarrow> messages_row list" where
  "visible_messages p db = filter (messages_select_policy p) (messages db)"

definition visible_conversations :: "principal \<Rightarrow> database \<Rightarrow> conversations_row list" where
  "visible_conversations p db = filter (conversations_select_policy p) (conversations db)"

definition attachments_select_policy ::
  "principal \<Rightarrow> database \<Rightarrow> attachments_row \<Rightarrow> bool" where
  "attachments_select_policy p db a =
     list_ex (\<lambda>m. list_ex (\<lambda>c. Some (c_id c) = m_conversation_id m
                               \<and> m_id m = a_message_id a
                               \<and> wallet_address_any p (c_participants c))
                      (visible_conversations p db))
             (visible_messages p db)"

definition attachments_insert_policy ::
  "principal \<Rightarrow> database \<Rightarrow> attachments_row \<Rightarrow> bool" where
  "attachments_insert_policy p db a =
     list_ex (\<lambda>m. list_ex (\<lambda>c. Some (c_id c) = m_conversation_id m
                               \<and> m_id m = a_message_id a
                               \<and> wallet_address_any p (c_participants c))
                      (visible_conversations p db))
             (visible_messages p db)"

text \<open>The four policies on \<open>storage.objects\<close>: each tests the bucket only.\<close>

definition attachments_bucket_select_policy :: "storage_object \<Rightarrow> bool" where
  "attachments_bucket_select_policy obj = (bucket_id obj = ''attachments'')"

definition attachments_bucket_insert_policy :: "storage_object \<Rightarrow> bool" where
  "attachments_bucket_insert_policy obj = (bucket_id obj = ''attachments'')"

definition attachments_bucket_update_policy :: "storage_object \<Rightarrow> bool" where
  "attachments_bucket_update_policy obj = (bucket_id obj = ''attachments'')"

definition attachments_bucket_delete_policy :: "storage_object \<Rightarrow> bool" where
  "attachments_bucket_delete_policy obj = (bucket_id obj = ''attachments'')"

text \<open>
  Row-level security admits a command on a row when a policy for that command and for
  the role of the session passes; every policy of the migration is \<open>TO authenticated\<close>.
  The attachments table has policies for \<open>SELECT\<close> and \<open>INSERT\<close> only.
\<close>

datatype sql_role = anon | authenticated

datatype sql_command = Select | Insert | Update | Delete

definition storage_objects_admits ::
  "sql_role \<Rightarrow> sql_command \<Rightarrow> storage_object \<Rightarrow> bool" where
  "storage_objects_admits role cmd obj =
     (role = authenticated \<and>
      (case cmd of
         Select \<Rightarrow> attachments_bucket_select_policy obj
       | Insert \<Rightarrow> attachments_bucket_insert_policy obj
       | Update \<Rightarrow> attachments_bucket_update_policy obj
       | Delete \<Rightarrow> attachments_bucket_delete_policy obj))"

definition attachments_admits ::
  "sql_role \<Rightarrow> sql_command \<Rightarrow> principal \<Rightarrow> database \<Rightarrow> attachments_row \<Rightarrow> bool" where
  "attachments_admits role cmd p db a =
     (role = authenticated \<and>
      (case cmd of
         Select \<Rightarrow> attachments_select_policy p db a
       | Insert \<Rightarrow> attachments_insert_policy p db a
       | Update \<Rightarrow> False
       | Delete \<Rightarrow> False))"

subsection \<open>Trigger \<open>update_conversation_on_message\<close> (before insert on messages)\<close>

text \<open>
  The \<open>WHERE\<close> clause of the search: \<open>participants @> ARRAY[x]\<close> holds when \<open>x\<close> is an
  element of the array, \<open>array_length(participants, 1) = 2\<close> when it has two elements.
\<close>

definition conversation_matches :: "messages_row \<Rightarrow> conversations_row \<Rightarrow> bool" where
  "conversation_matches new c =
     (m_sender new \<in> set (c_participants c)
      \<and> m_receiver new \<in> set (c_participants c)
      \<and> length (c_participants c) = 2)"

text \<open>
  \<open>LIMIT 1\<close> without \<open>ORDER BY\<close> returns one of the matching rows, which one is not
  specified; the chooser \<open>k\<close> stands for the scan order of the execution.
\<close>

definition limit_1 :: "nat \<Rightarrow> 'a list \<Rightarrow> 'a option" where
  "limit_1 k rows = (if rows = [] then None else Some (rows ! (k mod length rows)))"

text \<open>
  The values the column defaults of \<open>conversations.id\<close> and \<open>conversations.updated_at\<close>
  give a row inserted without them. The defaults are declared with the table, outside
  the migration, so they are inputs of the insert.
\<close>

record column_defaults =
  default_id :: uuid
  default_updated_at :: timestamptz

definition update_conversation_on_message ::
  "nat \<Rightarrow> column_defaults \<Rightarrow> database \<Rightarrow> messages_row \<Rightarrow> database \<times> messages_row" where
  "update_conversation_on_message k dflt db new =
     (case m_conversation_id new of
        Some given \<Rightarrow> (db, new)
      | None \<Rightarrow>
          (case limit_1 k (map c_id (filter (conversation_matches new) (conversations db))) of
             Some conv_id \<Rightarrow> (db, new\<lparr>m_conversation_id := Some conv_id\<rparr>)
           | None \<Rightarrow>
               (db\<lparr>conversations := conversations db @
                     [\<lparr>c_id = default_id dflt,
                       c_participants = [m_sender new, m_receiver new],
                       c_last_message = m_content new,
                       c_last_message_time = m_created_at new,
                       c_updated_at = default_updated_at dflt,
                       c_is_group = False,
                       c_group_name = [],
                       c_group_avatar = []\<rparr>]\<rparr>,
                new\<lparr>m_conversation_id := Some (default_id dflt)\<rparr>)))"

subsection \<open>Trigger \<open>update_conversation_last_message\<close> (after insert on messages)\<close>

definition update_conversation_last_message :: "database \<Rightarrow> messages_row \<Rightarrow> database" where
  "update_conversation_last_message db new =
     db\<lparr>conversations :=
          map (\<lambda>c. if Some (c_id c) = m_conversation_id new
                    then c\<lparr>c_last_message := m_content new,
                           c_last_message_time := m_created_at new,
                           c_updated_at := m_created_at new\<rparr>
                    else c)
              (conversations db)\<rparr>"

subsection \<open>Inserts\<close>

text \<open>
  \<open>INSERT INTO messages\<close> by a principal: the before-insert trigger runs, the
  \<open>WITH CHECK\<close> of the insert policy is tested on the row the trigger returns, the row
  is stored and the after-insert trigger runs. A violated check raises an error and the
  statement leaves the database as it was.
\<close>

definition insert_message ::
  "principal \<Rightarrow> nat \<Rightarrow> column_defaults \<Rightarrow> database \<Rightarrow> messages_row \<Rightarrow> sql_error + database" where
  "insert_message p k dflt db row =
     (case update_conversation_on_message k dflt db row of
        (db1, new) \<Rightarrow>
          if messages_insert_policy p new
          then Inr (update_conversation_last_message
                      (db1\<lparr>messages := messages db1 @ [new]\<rparr>) new)
          else Inl RowSecurityViolation)"

text \<open>
  Modelled from the spec: the declaration of the table \<open>conversations\<close> (its
  \<open>CREATE TABLE\<close> is not part of the migration). Sections 3, 4.3, 5 and 7 give the table
  a uniqueness constraint on the normalized participant pair of the non-group
  conversations: for non-group conversations the unordered pair maps to at most one row,
  and a duplicate is prevented structurally, not detected after the fact. The
  normalized pair is the participants in sorted order; a row that would repeat the
  normalized pair of a stored non-group row is refused with a unique violation.
\<close>

definition normalized_pair :: "identity list \<Rightarrow> identity list" where
  "normalized_pair ps = sort ps"

definition conversations_pair_unique :: "conversations_row list \<Rightarrow> conversations_row \<Rightarrow> bool" where
  "conversations_pair_unique cs row =
     (if c_is_group row then True
      else \<not> list_ex (\<lambda>c. \<not> c_is_group c
                \<and> normalized_pair (c_participants c) = normalized_pair (c_participants row)) cs)"

text \<open>
  \<open>INSERT INTO conversations\<close> by a principal: the \<open>WITH CHECK\<close> of the insert policy,
  then the constraint of the table. The row the before-insert trigger stores passes the
  constraint in every database (lemma \<open>trigger_row_passes\<close>), so the trigger above
  stores it without the test.
\<close>

definition insert_conversation ::
  "principal \<Rightarrow> database \<Rightarrow> conversations_row \<Rightarrow> sql_error + database" where
  "insert_conversation p db row =
     (if \<not> conversations_insert_policy p row then Inl RowSecurityViolation
      else if \<not> conversations_pair_unique (conversations db) row then Inl UniqueViolation
      else Inr (db\<lparr>conversations := conversations db @ [row]\<rparr>))"

datatype statement =
    InsertMessage principal nat column_defaults messages_row
  | InsertConversation principal conversations_row

fun execute :: "database \<Rightarrow> statement \<Rightarrow> database" where
  "execute db (InsertMessage p k dflt row) =
     (case insert_message p k dflt db row of Inl e \<Rightarrow> db | Inr db' \<Rightarrow> db')"
| "execute db (InsertConversation p row) =
     (case insert_conversation p db row of Inl e \<Rightarrow> db | Inr db' \<Rightarrow> db')"

text \<open>
  The non-group rows of an unordered pair of identities: the rows whose participants
  are the two identities, in either order.
\<close>

definition pair_rows :: "identity \<Rightarrow> identity \<Rightarrow> conversations_row list \<Rightarrow> conversations_row list" where
  "pair_rows a b cs =
     filter (\<lambda>c. \<not> c_is_group c
               \<and> normalized_pair (c_participants c) = normalized_pair [a, b]) cs"

definition two_party_with :: "identity \<Rightarrow> identity \<Rightarrow> conversations_row \<Rightarrow> bool" where
  "two_party_with a b c =
     (length (c_participants c) = 2 \<and> a \<in> set (c_participants c) \<and> b \<in> set (c_participants c))"

text \<open>
  A two-participant row of an unordered pair, and the invariant of the table: no two
  non-group rows with the same normalized pair.
\<close>

definition pair_conversation :: "identity \<Rightarrow> identity \<Rightarrow> conversations_row \<Rightarrow> bool" where
  "pair_conversation a b c =
     (length (c_participants c) = 2 \<and> set (c_participants c) = {a, b})"


section \<open>The client reconciliation engine (component \<open>Messages\<close>)\<close>

text \<open>
  A timestamp is a number of the language, a count of epoch milliseconds. Numbers are
  modelled by the rationals, which hold every finite number; \<open>NaN\<close> and the infinities
  are outside the model. A string is a sequence of code units below 256.
\<close>

datatype status = sending | sent | delivered | pending_decryption | failed

record Message =
  msg_id :: string
  sender :: string
  receiver :: string
  content :: string
  timestamp :: rat
  status :: status
  transport :: string
  encrypted :: bool

text \<open>
  \<open>last_message_time\<close> is the ISO string of a time value; the model keeps the
  time value the string denotes.
\<close>

record Conversation =
  conv_id :: string
  participants :: "string list"
  last_message :: string
  last_message_time :: int
  is_group :: bool

text \<open>The React state of the component: the message list and the derived summaries.\<close>

record engine =
  st_messages :: "Message list"
  st_conversations :: "Conversation list"

datatype js_error = RangeError

subsection \<open>Library functions of the language\<close>

text \<open>
  \<open>new Date(t)\<close> holds the time value \<open>TimeClip(t)\<close>: none when \<open>t\<close> is more than 8.64e15
  milliseconds from the epoch, and \<open>t\<close> truncated toward zero to an integer otherwise.
  \<open>toISOString()\<close> throws a \<open>RangeError\<close> for a date without time value and writes the
  time value otherwise; \<open>new Date(s).getTime()\<close> reads the time value back from the
  string.
\<close>

definition valid_time :: "rat \<Rightarrow> bool" where
  "valid_time t = (- 8640000000000000 \<le> t \<and> t \<le> 8640000000000000)"

definition TimeClip :: "rat \<Rightarrow> int" where
  "TimeClip t = (if 0 \<le> t then \<lfloor>t\<rfloor> else \<lceil>t\<rceil>)"

definition toISOString :: "rat \<Rightarrow> js_error + int" where
  "toISOString t = (if valid_time t then Inr (TimeClip t) else Inl RangeError)"

definition getTime :: "int \<Rightarrow> rat" where
  "getTime iso_string = of_int iso_string"

text \<open>
  \<open>toLowerCase()\<close> on code units below 256: the letters \<open>A\<close> to \<open>Z\<close> and the upper-case
  letters of Latin-1 (0xC0 to 0xDE without the multiplication sign 0xD7) move up by
  0x20, every other code unit stays. \<open>trim()\<close> strips white space and line terminators,
  below 256 the code units 0x09 to 0x0D, 0x20 and 0xA0.
\<close>

definition upper_case :: string where
  "upper_case = ''ABCDEFGHIJKLMNOPQRSTUVWXYZ'' @
          [CHR 0xC0, CHR 0xC1, CHR 0xC2, CHR 0xC3, CHR 0xC4, CHR 0xC5, CHR 0xC6, CHR 0xC7,
           CHR 0xC8, CHR 0xC9, CHR 0xCA, CHR 0xCB, CHR 0xCC, CHR 0xCD, CHR 0xCE, CHR 0xCF,
           CHR 0xD0, CHR 0xD1, CHR 0xD2, CHR 0xD3, CHR 0xD4, CHR 0xD5, CHR 0xD6, CHR 0xD8,
           CHR 0xD9, CHR 0xDA, CHR 0xDB, CHR 0xDC, CHR 0xDD, CHR 0xDE]"

definition lower_case :: string where
  "lower_case = ''abcdefghijklmnopqrstuvwxyz'' @
          [CHR 0xE0, CHR 0xE1, CHR 0xE2, CHR 0xE3, CHR 0xE4, CHR 0xE5, CHR 0xE6, CHR 0xE7,
           CHR 0xE8, CHR 0xE9, CHR 0xEA, CHR 0xEB, CHR 0xEC, CHR 0xED, CHR 0xEE, CHR 0xEF,
           CHR 0xF0, CHR 0xF1, CHR 0xF2, CHR 0xF3, CHR 0xF4, CHR 0xF5, CHR 0xF6, CHR 0xF8,
           CHR 0xF9, CHR 0xFA, CHR 0xFB, CHR 0xFC, CHR 0xFD, CHR 0xFE]"

definition toLowerCase_char :: "char \<Rightarrow> char" where
  "toLowerCase_char c =
     (case map_of (zip upper_case lower_case) c of
        None \<Rightarrow> c
      | Some l \<Rightarrow> l)"

definition toLowerCase :: "string \<Rightarrow> string" where
  "toLowerCase s = map toLowerCase_char s"

definition is_space :: "char \<Rightarrow> bool" where
  "is_space c =
     (c \<in> set [CHR 0x09, CHR 0x0A, CHR 0x0B, CHR 0x0C, CHR 0x0D, CHR 0x20, CHR 0xA0])"

definition trim :: "string \<Rightarrow> string" where
  "trim s = rev (dropWhile is_space (rev (dropWhile is_space s)))"

fun join :: "string \<Rightarrow> string list \<Rightarrow> string" where
  "join sep [] = []"
| "join sep [x] = x"
| "join sep (x # y # ys) = x @ sep @ join sep (y # ys)"

text \<open>
  \<open>xs.sort((a, b) => a.timestamp - b.timestamp)\<close>: the sort of the language is stable,
  and on finite numbers the sign of the difference orders by timestamp ascending.
\<close>

definition sort_by_timestamp :: "Message list \<Rightarrow> Message list" where
  "sort_by_timestamp xs = sort_key timestamp xs"

subsection \<open>\<open>generateConversationsFromMessages\<close>\<close>

text \<open>
  \<open>[message.sender, message.receiver].sort().join('-')\<close>: the default sort orders
  strings by their code units, on the strings of the model the lexicographic order of
  the characters.
\<close>

definition conversationId :: "Message \<Rightarrow> string" where
  "conversationId message = join ''-'' (sort [sender message, receiver message])"

text \<open>
  The body of the \<open>forEach\<close>. The \<open>Map\<close> keeps its keys in insertion order: an
  association list, a new key at the end, an update in place.
\<close>

definition forEach_body ::
  "(string \<times> Conversation) list \<Rightarrow> Message \<Rightarrow> js_error + (string \<times> Conversation) list" where
  "forEach_body conversationMap message =
     (case map_of conversationMap (conversationId message) of
        None \<Rightarrow>
          (case toISOString (timestamp message) of
             Inl e \<Rightarrow> Inl e
           | Inr iso_string \<Rightarrow>
               Inr (conversationMap @
                 [(conversationId message,
                   \<lparr>conv_id = conversationId message,
                    participants = sort [sender message, receiver message],
                    last_message = content message,
                    last_message_time = iso_string,
                    is_group = False\<rparr>)]))
      | Some conversation \<Rightarrow>
          if timestamp message > getTime (last_message_time conversation)
          then (case toISOString (timestamp message) of
                  Inl e \<Rightarrow> Inl e
                | Inr iso_string \<Rightarrow>
                    Inr (map (\<lambda>(k, c). if k = conversationId message
                                then (k, c\<lparr>last_message := content message,
                                          last_message_time := iso_string\<rparr>)
                                else (k, c))
                           conversationMap))
          else Inr conversationMap)"

fun forEach :: "Message list \<Rightarrow> (string \<times> Conversation) list
    \<Rightarrow> js_error + (string \<times> Conversation) list" where
  "forEach [] conversationMap = Inr conversationMap"
| "forEach (message # rest) conversationMap =
     (case forEach_body conversationMap message of
        Inl e \<Rightarrow> Inl e
      | Inr conversationMap' \<Rightarrow> forEach rest conversationMap')"

definition generateConversationsFromMessages ::
  "string option \<Rightarrow> Message list \<Rightarrow> engine \<Rightarrow> js_error + engine" where
  "generateConversationsFromMessages walletAddress messageList st =
     (case walletAddress of
        None \<Rightarrow> Inr st
      | Some w \<Rightarrow>
          if w = [] then Inr st
          else (case forEach messageList [] of
                  Inl e \<Rightarrow> Inl e
                | Inr conversationMap \<Rightarrow>
                    Inr (st\<lparr>st_conversations :=
                      sort_key (\<lambda>conv. - getTime (last_message_time conv))
                        (filter (\<lambda>conv. toLowerCase w \<in> set (participants conv))
                           (map snd conversationMap))\<rparr>)))"

subsection \<open>The updates of the message list\<close>

text \<open>
  Modelled from the spec: \<open>messagingService.loadMessagesFromLocal\<close> (the module
  \<open>lib/messagingService\<close> is not among the sources). Section 4.4: \<open>load()\<close> returns
  whatever has been durably persisted, the current durable snapshot, as a sequence of
  messages; no order of the sequence is promised.
\<close>

definition loadMessagesFromLocal :: "Message list \<Rightarrow> Message list" where
  "loadMessagesFromLocal persisted = persisted"

text \<open>
  \<open>initializeMessaging\<close>, as far as it writes the state: the loaded messages are stored
  as they come and the summaries derived. An error of the transport's \<open>initialize\<close> or
  of the derivation is caught and logged.
\<close>

definition initializeMessaging ::
  "string option \<Rightarrow> bool \<Rightarrow> Message list \<Rightarrow> engine \<Rightarrow> engine" where
  "initializeMessaging walletAddress initialize_ok persisted st =
     (case walletAddress of
        None \<Rightarrow> st
      | Some w \<Rightarrow>
          if w = [] \<or> \<not> initialize_ok then st
          else (let existingMessages = loadMessagesFromLocal persisted;
                    st1 = st\<lparr>st_messages := existingMessages\<rparr>
                in case generateConversationsFromMessages walletAddress existingMessages st1 of
                     Inl e \<Rightarrow> st1
                   | Inr st2 \<Rightarrow> st2))"

text \<open>The state update of the \<open>onMessage\<close> listener.\<close>

definition onMessage :: "string option \<Rightarrow> engine \<Rightarrow> Message \<Rightarrow> js_error + engine" where
  "onMessage walletAddress st message =
     (if list_ex (\<lambda>m. msg_id m = msg_id message) (st_messages st) then Inr st
      else (let newMessages = sort_by_timestamp (st_messages st @ [message])
            in case generateConversationsFromMessages walletAddress newMessages st of
                 Inl e \<Rightarrow> Inl e
               | Inr st' \<Rightarrow> Inr (st'\<lparr>st_messages := newMessages\<rparr>)))"

text \<open>
  The three state updates of \<open>handleSend\<close>: the optimistic append, the update after the
  transport acknowledged, and the update in the \<open>catch\<close> block.
\<close>

definition send_append :: "string option \<Rightarrow> engine \<Rightarrow> Message \<Rightarrow> js_error + engine" where
  "send_append walletAddress st localMessage =
     (let newMessages = sort_by_timestamp (st_messages st @ [localMessage])
      in case generateConversationsFromMessages walletAddress newMessages st of
           Inl e \<Rightarrow> Inl e
         | Inr st' \<Rightarrow> Inr (st'\<lparr>st_messages := newMessages\<rparr>))"

definition send_succeeded :: "engine \<Rightarrow> string \<Rightarrow> engine" where
  "send_succeeded st local_id =
     st\<lparr>st_messages :=
          map (\<lambda>msg. if msg_id msg = local_id then msg\<lparr>status := sent\<rparr> else msg)
              (st_messages st)\<rparr>"

definition send_failed :: "engine \<Rightarrow> engine" where
  "send_failed st =
     st\<lparr>st_messages :=
          map (\<lambda>msg. if st_messages st \<noteq> [] \<and> msg_id msg = msg_id (last (st_messages st))
                      then msg\<lparr>status := failed\<rparr> else msg)
              (st_messages st)\<rparr>"

record send_form =
  newMessage :: string
  recipient :: string
  selectedConversation :: "Conversation option"
  encryptionEnabled :: bool

text \<open>
  What the environment gives one send: the value of \<open>crypto.randomUUID()\<close>, of
  \<open>Date.now()\<close>, and whether \<open>messagingService.sendMessage\<close> resolves or rejects.
\<close>

record send_env =
  randomUUID :: string
  now :: int
  sendMessage_ok :: bool

definition targetRecipient :: "string \<Rightarrow> send_form \<Rightarrow> string" where
  "targetRecipient w form =
     (case selectedConversation form of
        None \<Rightarrow> recipient form
      | Some conv \<Rightarrow>
          (case find (\<lambda>p. p \<noteq> toLowerCase w) (participants conv) of
             None \<Rightarrow> recipient form
           | Some p \<Rightarrow> if p = [] then recipient form else p))"

definition localMessage :: "string \<Rightarrow> send_form \<Rightarrow> send_env \<Rightarrow> Message" where
  "localMessage w form env =
     \<lparr>msg_id = randomUUID env,
      sender = toLowerCase w,
      receiver = toLowerCase (targetRecipient w form),
      content = trim (newMessage form),
      timestamp = of_int (now env),
      status = sending,
      transport = ''gun'',
      encrypted = encryptionEnabled form\<rparr>"

definition handleSend ::
  "string option \<Rightarrow> send_form \<Rightarrow> send_env \<Rightarrow> engine \<Rightarrow> js_error + engine" where
  "handleSend walletAddress form env st =
     (case walletAddress of
        None \<Rightarrow> Inr st
      | Some w \<Rightarrow>
          if trim (newMessage form) = [] \<or> w = [] then Inr st
          else if trim (targetRecipient w form) = [] then Inr st
          else (case send_append walletAddress st (localMessage w form env) of
                  Inl e \<Rightarrow> Inl e
                | Inr st1 \<Rightarrow>
                    if sendMessage_ok env
                    then Inr (send_succeeded st1 (msg_id (localMessage w form env)))
                    else Inr (send_failed st1)))"

text \<open>
  The mutations of the engine after the initial load. An inbound message may arrive
  while a send awaits the transport, so the updates of a send are mutations of their
  own as well.
\<close>

datatype mutation =
    Inbound Message
  | LocalSend send_form send_env
  | SendAppend Message
  | SendSucceeded string
  | SendFailed

fun mutate :: "string option \<Rightarrow> engine \<Rightarrow> mutation \<Rightarrow> js_error + engine" where
  "mutate w st (Inbound message) = onMessage w st message"
| "mutate w st (LocalSend form env) = handleSend w form env st"
| "mutate w st (SendAppend message) = send_append w st message"
| "mutate w st (SendSucceeded local_id) = Inr (send_succeeded st local_id)"
| "mutate w st SendFailed = Inr (send_failed st)"

fun mutations :: "string option \<Rightarrow> engine \<Rightarrow> mutation list \<Rightarrow> js_error + engine" where
  "mutations w st [] = Inr st"
| "mutations w st (m # ms) =
     (case mutate w st m of Inl e \<Rightarrow> Inl e | Inr st' \<Rightarrow> mutations w st' ms)"

subsection \<open>Notions of the statements\<close>

definition mutation_time_valid :: "mutation \<Rightarrow> bool" where
  "mutation_time_valid m =
     (case m of
        Inbound message \<Rightarrow> valid_time (timestamp message)
      | LocalSend form env \<Rightarrow> valid_time (of_int (now env))
      | SendAppend message \<Rightarrow> valid_time (timestamp message)
      | SendSucceeded local_id \<Rightarrow> True
      | SendFailed \<Rightarrow> True)"

definition times_valid :: "Message list \<Rightarrow> bool" where
  "times_valid xs = list_all valid_time (map timestamp xs)"

text \<open>The messages of a key, and the first message of a list that attains its latest timestamp.\<close>

definition group_of :: "string \<Rightarrow> Message list \<Rightarrow> Message list" where
  "group_of k ms = filter (\<lambda>m. conversationId m = k) ms"

definition first_latest :: "Message list \<Rightarrow> Message" where
  "first_latest g = hd (filter (\<lambda>m. timestamp m = Max (set (map timestamp g))) g)"

definition summary_of :: "string \<Rightarrow> Message list \<Rightarrow> Conversation \<Rightarrow> bool" where
  "summary_of k g c =
     (conv_id c = k
      \<and> participants c = sort [sender (hd g), receiver (hd g)]
      \<and> last_message c = content (first_latest g)
      \<and> of_int (last_message_time c) = timestamp (first_latest g)
      \<and> timestamp (first_latest g) = Max (set (map timestamp g)))"

definition derived :: "(string \<times> Conversation) list \<Rightarrow> Message list \<Rightarrow> bool" where
  "derived cm ms =
     (distinct (map fst cm)
      \<and> (\<forall>k. if group_of k ms = [] then map_of cm k = None
              else \<exists>c. map_of cm k = Some c \<and> summary_of k (group_of k ms) c))"

section \<open>Example data\<close>

text \<open>Principals, rows and messages of the witnesses and counterexamples.\<close>

definition alice :: principal where
  "alice = \<lparr>auth_email = Some ''0xaa@kraken.web3'', auth_uid = ''u-alice''\<rparr>"

definition bob :: principal where
  "bob = \<lparr>auth_email = Some ''0xbb@kraken.web3'', auth_uid = ''u-bob''\<rparr>"

definition carol :: principal where
  "carol = \<lparr>auth_email = Some ''carol@mail.org'', auth_uid = ''u-carol''\<rparr>"

definition message_row :: "uuid \<Rightarrow> identity \<Rightarrow> identity \<Rightarrow> string \<Rightarrow> timestamptz \<Rightarrow> messages_row" where
  "message_row i s r txt t =
     \<lparr>m_id = i, m_conversation_id = None, m_sender = s, m_receiver = r,
      m_content = txt, m_created_at = t\<rparr>"

definition defaults :: "uuid \<Rightarrow> column_defaults" where
  "defaults i = \<lparr>default_id = i, default_updated_at = 0\<rparr>"

definition conversation_row :: "uuid \<Rightarrow> identity list \<Rightarrow> string \<Rightarrow> timestamptz \<Rightarrow> conversations_row" where
  "conversation_row i ps txt t =
     \<lparr>c_id = i, c_participants = ps, c_last_message = txt, c_last_message_time = t,
      c_updated_at = t, c_is_group = False, c_group_name = [], c_group_avatar = []\<rparr>"

definition initial_engine :: engine where
  "initial_engine = \<lparr>st_messages = [], st_conversations = []\<rparr>"

definition mk_message :: "string \<Rightarrow> string \<Rightarrow> string \<Rightarrow> string \<Rightarrow> rat \<Rightarrow> Message" where
  "mk_message i s r txt t =
     \<lparr>msg_id = i, sender = s, receiver = r, content = txt, timestamp = t,
      status = delivered, transport = ''gun'', encrypted = False\<rparr>"

section \<open>Properties of the identity resolver\<close>

lemma like_literal:
  "CHR ''%'' \<notin> set lit \<Longrightarrow> CHR ''_'' \<notin> set lit \<Longrightarrow> like s lit = (s = lit)"
  by (induction s lit rule: like.induct) auto

lemma like_percent_literal:
  assumes "CHR ''%'' \<notin> set lit" and "CHR ''_'' \<notin> set lit"
  shows "like s (CHR ''%'' # lit) = suffix lit s"
proof (induction s)
  case Nil
  from assms show ?case
    by (cases lit) (auto simp: like_literal)
next
  case (Cons c cs)
  from assms have "like (c # cs) lit = (c # cs = lit)"
    by (rule like_literal)
  with Cons show ?case
    by (auto simp: suffix_Cons)
qed

lemma like_kraken: "like e ''%@kraken.web3'' = suffix ''@kraken.web3'' e"
  by (rule like_percent_literal) simp_all

lemma split_fields_not_Nil: "split_fields d s \<noteq> []"
  by (induction s) (auto split: list.splits)

lemma hd_split_fields: "hd (split_fields d s) = takeWhile (\<lambda>c. c \<noteq> d) s"
  using split_fields_not_Nil [of d]
  by (induction s) (auto split: list.splits)

lemma split_part_first: "split_part s d (Suc 0) = Inr (takeWhile (\<lambda>c. c \<noteq> d) s)"
proof -
  have "0 < length (split_fields d s)"
    using split_fields_not_Nil [of d s] by simp
  moreover have "split_fields d s ! 0 = hd (split_fields d s)"
    using split_fields_not_Nil [of d s] by (simp add: hd_conv_nth)
  ultimately show ?thesis
    by (simp add: split_part_def hd_split_fields Suc_le_eq)
qed

lemma suffix_kraken_has_at:
  "suffix ''@kraken.web3'' e \<Longrightarrow> CHR ''@'' \<in> set e"
  by (auto simp: suffix_def)

text \<open>
  C1: for every authenticated principal, the resolver returns the part of the email
  before the \<open>@\<close> (the first one) when the email ends in \<open>@kraken.web3\<close>, and the
  principal's unique id as text otherwise (also when the principal has no email). For
  an email \<open>addr @ ''@kraken.web3''\<close> whose address holds no \<open>@\<close>, the result is \<open>addr\<close>.
\<close>

theorem get_user_wallet_address_resolves:
  "(auth_email p = Some e \<and> suffix ''@kraken.web3'' e \<longrightarrow>
      (\<exists>r rest. get_user_wallet_address p = Inr r \<and> e = r @ CHR ''@'' # rest
         \<and> CHR ''@'' \<notin> set r))
   \<and> (auth_email p = Some (addr @ ''@kraken.web3'') \<and> CHR ''@'' \<notin> set addr \<longrightarrow>
      get_user_wallet_address p = Inr addr)
   \<and> (auth_email p = Some e \<and> \<not> suffix ''@kraken.web3'' e \<longrightarrow>
      get_user_wallet_address p = Inr (auth_uid p))
   \<and> (auth_email p = None \<longrightarrow> get_user_wallet_address p = Inr (auth_uid p))"
proof (intro conjI impI)
  assume h: "auth_email p = Some e \<and> suffix ''@kraken.web3'' e"
  let ?r = "takeWhile (\<lambda>c. c \<noteq> CHR ''@'') e"
  from h have at: "CHR ''@'' \<in> set e"
    by (simp add: suffix_kraken_has_at)
  then have "dropWhile (\<lambda>c. c \<noteq> CHR ''@'') e \<noteq> []"
    by (simp add: dropWhile_eq_Nil_conv)
  then obtain x rest where dw: "dropWhile (\<lambda>c. c \<noteq> CHR ''@'') e = x # rest"
    by (cases "dropWhile (\<lambda>c. c \<noteq> CHR ''@'') e") auto
  then have "x = CHR ''@''"
    using hd_dropWhile [of "\<lambda>c. c \<noteq> CHR ''@''" e] by auto
  with dw have "e = ?r @ CHR ''@'' # rest"
    using takeWhile_dropWhile_id [of "\<lambda>c. c \<noteq> CHR ''@''" e] by simp
  moreover have "CHR ''@'' \<notin> set ?r"
    by (auto dest: set_takeWhileD)
  moreover from h have "get_user_wallet_address p = Inr ?r"
    by (simp add: get_user_wallet_address_def like_kraken split_part_first)
  ultimately show "\<exists>r rest. get_user_wallet_address p = Inr r \<and> e = r @ CHR ''@'' # rest
      \<and> CHR ''@'' \<notin> set r"
    by blast
next
  assume h: "auth_email p = Some (addr @ ''@kraken.web3'') \<and> CHR ''@'' \<notin> set addr"
  then have "\<And>x. x \<in> set addr \<Longrightarrow> x \<noteq> CHR ''@''"
    by auto
  then have "takeWhile (\<lambda>c. c \<noteq> CHR ''@'') (addr @ ''@kraken.web3'') = addr"
    by (simp add: takeWhile_append2)
  moreover have "suffix ''@kraken.web3'' (addr @ ''@kraken.web3'')"
    by (simp add: suffix_def)
  ultimately show "get_user_wallet_address p = Inr addr"
    using h by (simp add: get_user_wallet_address_def like_kraken split_part_first)
next
  assume "auth_email p = Some e \<and> \<not> suffix ''@kraken.web3'' e"
  then show "get_user_wallet_address p = Inr (auth_uid p)"
    by (simp add: get_user_wallet_address_def like_kraken)
next
  assume "auth_email p = None"
  then show "get_user_wallet_address p = Inr (auth_uid p)"
    by (simp add: get_user_wallet_address_def)
qed

theorem get_user_wallet_address_resolves_witness:
  "suffix ''@kraken.web3'' ''0xab12@kraken.web3''
   \<and> get_user_wallet_address
         \<lparr>auth_email = Some ''0xab12@kraken.web3'', auth_uid = ''7f3c''\<rparr> = Inr ''0xab12''
   \<and> \<not> suffix ''@kraken.web3'' ''bob@mail.org''
   \<and> get_user_wallet_address
         \<lparr>auth_email = Some ''bob@mail.org'', auth_uid = ''7f3c''\<rparr> = Inr ''7f3c''
   \<and> get_user_wallet_address \<lparr>auth_email = None, auth_uid = ''7f3c''\<rparr> = Inr ''7f3c''"
proof -
  let ?w = "\<lparr>auth_email = Some ''0xab12@kraken.web3'', auth_uid = ''7f3c''\<rparr>"
  let ?m = "\<lparr>auth_email = Some ''bob@mail.org'', auth_uid = ''7f3c''\<rparr>"
  let ?n = "\<lparr>auth_email = None, auth_uid = ''7f3c''\<rparr>"
  have s1: "suffix ''@kraken.web3'' ''0xab12@kraken.web3''"
    by (simp add: suffix_to_prefix)
  have s2: "\<not> suffix ''@kraken.web3'' ''bob@mail.org''"
    by (simp add: suffix_to_prefix)
  have "get_user_wallet_address ?w = Inr ''0xab12''"
    using get_user_wallet_address_resolves [of ?w "''0xab12@kraken.web3''" "''0xab12''"]
    by simp
  moreover have "get_user_wallet_address ?m = Inr ''7f3c''"
    using get_user_wallet_address_resolves [of ?m "''bob@mail.org''" "[]"] s2
    by simp
  moreover have "get_user_wallet_address ?n = Inr ''7f3c''"
    using get_user_wallet_address_resolves [of ?n "[]" "[]"]
    by simp
  ultimately show ?thesis
    using s1 s2 by simp
qed

section \<open>Properties of the triggers and policies\<close>

lemma alice_address: "get_user_wallet_address alice = Inr ''0xaa''"
  by (simp add: alice_def get_user_wallet_address_def like_kraken split_part_first
      suffix_to_prefix)

lemma bob_address: "get_user_wallet_address bob = Inr ''0xbb''"
  by (simp add: bob_def get_user_wallet_address_def like_kraken split_part_first
      suffix_to_prefix)

lemma carol_address: "get_user_wallet_address carol = Inr ''u-carol''"
  by (simp add: carol_def get_user_wallet_address_def like_kraken suffix_to_prefix)

lemmas eval_defs = insert_message_def update_conversation_on_message_def
  update_conversation_last_message_def limit_1_def conversation_matches_def
  messages_insert_policy_def message_row_def defaults_def empty_database_def
  insert_conversation_def conversations_insert_policy_def wallet_address_any_def
  alice_address bob_address carol_address

lemmas eval_defs2 = eval_defs conversation_row_def pair_conversation_def two_party_with_def
  pair_rows_def normalized_pair_def conversations_pair_unique_def

lemma rollup_rows:
  "c \<in> set (conversations (update_conversation_last_message db new)) \<Longrightarrow>
   Some (c_id c) = m_conversation_id new \<Longrightarrow>
   c_last_message c = m_content new \<and> c_last_message_time c = m_created_at new
     \<and> c_updated_at c = m_created_at new"
  by (auto simp: update_conversation_last_message_def split: if_splits)

lemma rollup_ids:
  "map c_id (conversations (update_conversation_last_message db new)) = map c_id (conversations db)"
  by (simp add: update_conversation_last_message_def)

lemma rollup_participants:
  "map c_participants (conversations (update_conversation_last_message db new))
     = map c_participants (conversations db)"
  by (simp add: update_conversation_last_message_def)

lemma rollup_messages:
  "messages (update_conversation_last_message db new) = messages db"
  by (simp add: update_conversation_last_message_def)

lemma limit_1_in: "limit_1 k rows = Some x \<Longrightarrow> x \<in> set rows"
  by (auto simp: limit_1_def split: if_splits)

lemma limit_1_None: "limit_1 k rows = None \<longleftrightarrow> rows = []"
  by (simp add: limit_1_def)

lemma on_message_fields:
  "update_conversation_on_message k dflt db row = (db1, new) \<Longrightarrow>
   m_content new = m_content row \<and> m_created_at new = m_created_at row
   \<and> m_sender new = m_sender row \<and> m_receiver new = m_receiver row \<and> m_id new = m_id row
   \<and> messages db1 = messages db \<and> m_conversation_id new \<noteq> None"
  by (auto simp: update_conversation_on_message_def split: option.splits)

lemma on_message_bound:
  "update_conversation_on_message k dflt db row = (db1, new) \<Longrightarrow>
   m_conversation_id row = None \<or> m_conversation_id row \<in> Some ` c_id ` set (conversations db) \<Longrightarrow>
   m_conversation_id new \<in> Some ` c_id ` set (conversations db1)"
  by (auto simp: update_conversation_on_message_def split: option.splits dest!: limit_1_in)

text \<open>
  C5: an admitted insert of a message \<open>M\<close> stores the row with its content and
  \<open>created_at\<close>, and after the after-insert trigger every conversation that carries the
  bound id has \<open>last_message = M.content\<close> and \<open>last_message_time = M.created_at\<close>,
  whatever time the row held before (no hypothesis compares the times). The bound
  conversation exists when the message came without \<open>conversation_id\<close> or named an
  existing conversation.
\<close>

theorem insert_message_rollup:
  assumes "insert_message p k dflt db row = Inr db'"
  shows "\<exists>new. messages db' = messages db @ [new]
      \<and> m_content new = m_content row \<and> m_created_at new = m_created_at row
      \<and> (\<forall>c \<in> set (conversations db'). Some (c_id c) = m_conversation_id new \<longrightarrow>
            c_last_message c = m_content row \<and> c_last_message_time c = m_created_at row)
      \<and> (m_conversation_id row = None
           \<or> m_conversation_id row \<in> Some ` c_id ` set (conversations db) \<longrightarrow>
          (\<exists>c \<in> set (conversations db'). Some (c_id c) = m_conversation_id new))"
proof -
  obtain db1 new where tr: "update_conversation_on_message k dflt db row = (db1, new)"
    by (cases "update_conversation_on_message k dflt db row")
  with assms have db': "db' = update_conversation_last_message (db1\<lparr>messages := messages db1 @ [new]\<rparr>) new"
    by (simp add: insert_message_def split: if_splits)
  note f = on_message_fields [OF tr]
  have "messages db' = messages db @ [new]"
    using f by (simp add: db' rollup_messages)
  moreover have "\<forall>c \<in> set (conversations db'). Some (c_id c) = m_conversation_id new \<longrightarrow>
            c_last_message c = m_content row \<and> c_last_message_time c = m_created_at row"
    using f rollup_rows [of _ "db1\<lparr>messages := messages db1 @ [new]\<rparr>" new]
    by (auto simp: db')
  moreover have "m_conversation_id row = None
           \<or> m_conversation_id row \<in> Some ` c_id ` set (conversations db) \<longrightarrow>
          (\<exists>c \<in> set (conversations db'). Some (c_id c) = m_conversation_id new)"
  proof
    assume "m_conversation_id row = None
           \<or> m_conversation_id row \<in> Some ` c_id ` set (conversations db)"
    from on_message_bound [OF tr this]
    have "m_conversation_id new \<in> Some ` set (map c_id (conversations db'))"
      by (simp add: db' rollup_ids)
    then show "\<exists>c \<in> set (conversations db'). Some (c_id c) = m_conversation_id new"
      by auto
  qed
  ultimately show ?thesis
    using f by blast
qed

theorem insert_message_rollup_witness:
  "insert_message bob 0 (defaults ''c2'')
      \<lparr>conversations = [conversation_row ''c1'' [''0xaa'', ''0xbb''] ''newer'' 100],
       messages = [], attachments = []\<rparr>
      (message_row ''m2'' ''0xbb'' ''0xaa'' ''older'' 50)
    = Inr \<lparr>conversations = [conversation_row ''c1'' [''0xaa'', ''0xbb''] ''older'' 50],
           messages = [\<lparr>m_id = ''m2'', m_conversation_id = Some ''c1'', m_sender = ''0xbb'',
                        m_receiver = ''0xaa'', m_content = ''older'', m_created_at = 50\<rparr>],
           attachments = []\<rparr>"
proof -
  let ?db = "\<lparr>conversations = [conversation_row ''c1'' [''0xaa'', ''0xbb''] ''newer'' 100],
       messages = [], attachments = []\<rparr>"
  let ?db' = "\<lparr>conversations = [conversation_row ''c1'' [''0xaa'', ''0xbb''] ''older'' 50],
           messages = [\<lparr>m_id = ''m2'', m_conversation_id = Some ''c1'', m_sender = ''0xbb'',
                        m_receiver = ''0xaa'', m_content = ''older'', m_created_at = 50\<rparr>],
           attachments = []\<rparr>"
  have run: "insert_message bob 0 (defaults ''c2'') ?db
      (message_row ''m2'' ''0xbb'' ''0xaa'' ''older'' 50) = Inr ?db'"
    by (simp add: eval_defs2)
  from insert_message_rollup [OF run] show ?thesis
    using run by simp
qed

lemma matches_two_party:
  "conversation_matches new c = two_party_with (m_sender new) (m_receiver new) c"
  by (auto simp: conversation_matches_def two_party_with_def)

lemma two_party_with_commute: "two_party_with a b c = two_party_with b a c"
  by (auto simp: two_party_with_def)

lemma length_two_set:
  "length xs = 2 \<Longrightarrow> a \<in> set xs \<Longrightarrow> b \<in> set xs \<Longrightarrow> a \<noteq> b \<Longrightarrow> set xs = {a, b}"
proof -
  assume l: "length xs = 2" and a: "a \<in> set xs" and b: "b \<in> set xs" and n: "a \<noteq> b"
  from l obtain x y where xs: "xs = [x, y]"
    by (cases xs; cases "tl xs") auto
  with a b n show ?thesis by auto
qed

lemma two_party_with_pair:
  "a \<noteq> b \<Longrightarrow> two_party_with a b c = pair_conversation a b c"
  by (auto simp: two_party_with_def pair_conversation_def dest: length_two_set)

lemma rollup_matching_ids:
  "map c_id (filter (conversation_matches row)
       (conversations (update_conversation_last_message db new)))
   = map c_id (filter (conversation_matches row) (conversations db))"
proof -
  have "map c_id (filter (conversation_matches row)
          (map (\<lambda>c. if P c then c\<lparr>c_last_message := x, c_last_message_time := y,
                                  c_updated_at := z\<rparr> else c) cs))
        = map c_id (filter (conversation_matches row) cs)" for P x y z cs
    by (induction cs) (auto simp: conversation_matches_def)
  then show ?thesis
    by (simp add: update_conversation_last_message_def)
qed

lemma insert_message_unfold:
  assumes "insert_message p k dflt db row = Inr db'"
  obtains db1 new where "update_conversation_on_message k dflt db row = (db1, new)"
    and "db' = update_conversation_last_message (db1\<lparr>messages := messages db1 @ [new]\<rparr>) new"
proof -
  obtain db1 new where tr: "update_conversation_on_message k dflt db row = (db1, new)"
    by (cases "update_conversation_on_message k dflt db row")
  with assms have "db' = update_conversation_last_message (db1\<lparr>messages := messages db1 @ [new]\<rparr>) new"
    by (simp add: insert_message_def split: if_splits)
  with tr that show thesis by blast
qed

lemma on_message_create:
  assumes "m_conversation_id row = None"
    and "filter (conversation_matches row) (conversations db) = []"
    and "update_conversation_on_message k dflt db row = (db1, new)"
  shows "m_conversation_id new = Some (default_id dflt)
    \<and> map c_id (filter (conversation_matches row2) (conversations db1))
        = (if conversation_matches row2
                \<lparr>c_id = default_id dflt, c_participants = [m_sender row, m_receiver row],
                 c_last_message = m_content row, c_last_message_time = m_created_at row,
                 c_updated_at = default_updated_at dflt, c_is_group = False,
                 c_group_name = [], c_group_avatar = []\<rparr>
           then map c_id (filter (conversation_matches row2) (conversations db)) @ [default_id dflt]
           else map c_id (filter (conversation_matches row2) (conversations db)))"
  using assms
  by (auto simp: update_conversation_on_message_def limit_1_def split: option.splits)

lemma on_message_found:
  assumes "m_conversation_id row = None"
    and "filter (conversation_matches row) (conversations db) \<noteq> []"
  shows "\<exists>c \<in> set (filter (conversation_matches row) (conversations db)).
     update_conversation_on_message k dflt db row = (db, row\<lparr>m_conversation_id := Some (c_id c)\<rparr>)"
proof -
  let ?ids = "map c_id (filter (conversation_matches row) (conversations db))"
  from assms(2) have "?ids \<noteq> []" by simp
  then obtain cid where l: "limit_1 k ?ids = Some cid"
    by (auto simp: limit_1_def)
  then have "cid \<in> set ?ids" by (rule limit_1_in)
  then obtain c where "c \<in> set (filter (conversation_matches row) (conversations db))"
    and "cid = c_id c" by auto
  with l assms(1) show ?thesis
    by (auto simp: update_conversation_on_message_def)
qed

lemma find_or_create_general:
  assumes none: "list_all (\<lambda>c. \<not> two_party_with a b c) (conversations db)"
    and r1: "m_sender row1 = a" "m_receiver row1 = b" "m_conversation_id row1 = None"
    and r2: "m_sender row2 = b" "m_receiver row2 = a" "m_conversation_id row2 = None"
    and i1: "insert_message p1 k1 d1 db row1 = Inr db1"
    and i2: "insert_message p2 k2 d2 db1 row2 = Inr db2"
  shows "\<exists>n1 n2 cid. messages db2 = messages db @ [n1, n2]
      \<and> m_id n1 = m_id row1 \<and> m_id n2 = m_id row2
      \<and> m_conversation_id n1 = Some cid \<and> m_conversation_id n2 = Some cid"
proof -
  from i1 obtain dbA n1 where t1: "update_conversation_on_message k1 d1 db row1 = (dbA, n1)"
    and db1: "db1 = update_conversation_last_message (dbA\<lparr>messages := messages dbA @ [n1]\<rparr>) n1"
    by (rule insert_message_unfold)
  from i2 obtain dbB n2 where t2: "update_conversation_on_message k2 d2 db1 row2 = (dbB, n2)"
    and db2: "db2 = update_conversation_last_message (dbB\<lparr>messages := messages dbB @ [n2]\<rparr>) n2"
    by (rule insert_message_unfold)
  have nomatch1: "filter (conversation_matches row1) (conversations db) = []"
    using none r1 by (auto simp: filter_empty_conv matches_two_party list_all_iff)
  have nomatch2: "filter (conversation_matches row2) (conversations db) = []"
    using none r2 two_party_with_commute [of a b]
    by (auto simp: filter_empty_conv matches_two_party list_all_iff)
  from on_message_create [OF r1(3) nomatch1 t1, of row2]
  have c1: "m_conversation_id n1 = Some (default_id d1)"
    and ids: "map c_id (filter (conversation_matches row2) (conversations dbA)) = [default_id d1]"
    using nomatch2 r1 r2
    by (auto simp: conversation_matches_def split: if_splits)
  have "map c_id (filter (conversation_matches row2) (conversations db1)) = [default_id d1]"
    using ids by (simp add: db1 rollup_matching_ids)
  then have "limit_1 k2 (map c_id (filter (conversation_matches row2) (conversations db1)))
      = Some (default_id d1)"
    by (simp add: limit_1_def)
  with t2 r2 have c2: "m_conversation_id n2 = Some (default_id d1)"
    by (auto simp: update_conversation_on_message_def)
  have "messages db2 = messages db @ [n1, n2]"
    using on_message_fields [OF t1] on_message_fields [OF t2]
    by (simp add: db1 db2 rollup_messages)
  with c1 c2 on_message_fields [OF t1] on_message_fields [OF t2] show ?thesis
    by blast
qed

text \<open>
  C4 (as amended): for any two distinct identities \<open>a\<close> and \<open>b\<close> and any database with no
  two-participant conversation of the pair, a message from \<open>a\<close> to \<open>b\<close> and then a
  message from \<open>b\<close> to \<open>a\<close>, both without \<open>conversation_id\<close> and both admitted, are
  bound to one and the same conversation id, whatever the scan orders and column defaults.
\<close>

theorem find_or_create_order_independent:
  assumes "a \<noteq> b"
    and "list_all (\<lambda>c. \<not> pair_conversation a b c) (conversations db)"
    and "m_sender row1 = a" "m_receiver row1 = b" "m_conversation_id row1 = None"
    and "m_sender row2 = b" "m_receiver row2 = a" "m_conversation_id row2 = None"
    and "insert_message p1 k1 d1 db row1 = Inr db1"
    and "insert_message p2 k2 d2 db1 row2 = Inr db2"
  shows "\<exists>n1 n2 cid. messages db2 = messages db @ [n1, n2]
      \<and> m_id n1 = m_id row1 \<and> m_id n2 = m_id row2
      \<and> m_conversation_id n1 = Some cid \<and> m_conversation_id n2 = Some cid"
proof -
  from assms(1,2) have "list_all (\<lambda>c. \<not> two_party_with a b c) (conversations db)"
    by (simp add: two_party_with_pair)
  then show ?thesis
    using assms(3-) by (rule find_or_create_general)
qed

theorem find_or_create_order_independent_witness:
  "''0xaa'' \<noteq> ''0xbb''
   \<and> list_all (\<lambda>c. \<not> pair_conversation ''0xaa'' ''0xbb'' c) (conversations empty_database)
   \<and> map m_conversation_id (messages (foldl execute empty_database
        [InsertMessage alice 0 (defaults ''c1'') (message_row ''m1'' ''0xaa'' ''0xbb'' ''hi'' 100),
         InsertMessage bob 0 (defaults ''c2'') (message_row ''m2'' ''0xbb'' ''0xaa'' ''yo'' 200)]))
      = [Some ''c1'', Some ''c1'']"
proof -
  let ?r1 = "message_row ''m1'' ''0xaa'' ''0xbb'' ''hi'' 100"
  let ?r2 = "message_row ''m2'' ''0xbb'' ''0xaa'' ''yo'' 200"
  let ?db1 = "execute empty_database (InsertMessage alice 0 (defaults ''c1'') ?r1)"
  let ?db2 = "execute ?db1 (InsertMessage bob 0 (defaults ''c2'') ?r2)"
  have i1: "insert_message alice 0 (defaults ''c1'') empty_database ?r1 = Inr ?db1"
    by (simp add: eval_defs2)
  have i2: "insert_message bob 0 (defaults ''c2'') ?db1 ?r2 = Inr ?db2"
    by (simp add: eval_defs2)
  have ne: "(''0xaa'' :: string) \<noteq> ''0xbb''" by simp
  have none: "list_all (\<lambda>c. \<not> pair_conversation ''0xaa'' ''0xbb'' c) (conversations empty_database)"
    by (simp add: empty_database_def)
  from find_or_create_order_independent [OF ne none _ _ _ _ _ _ i1 i2]
  have "\<exists>n1 n2 cid. messages ?db2 = messages empty_database @ [n1, n2]
      \<and> m_id n1 = m_id ?r1 \<and> m_id n2 = m_id ?r2
      \<and> m_conversation_id n1 = Some cid \<and> m_conversation_id n2 = Some cid"
    by (simp add: message_row_def)
  then show ?thesis
    using ne none by (simp add: eval_defs2)
qed

text \<open>
  With sender equal to receiver the search matches every two-participant conversation
  of the identity: with two of them and no row \<open>[a, a]\<close>, the two inserts may be bound
  to different conversations.
\<close>

theorem find_or_create_self_pair_counterexample:
  "list_all (\<lambda>c. \<not> pair_conversation ''0xaa'' ''0xaa'' c)
      [conversation_row ''c1'' [''0xaa'', ''0xbb''] ''hi'' 10,
       conversation_row ''c2'' [''0xaa'', ''0xcc''] ''hi'' 20]
   \<and> map m_conversation_id (messages (foldl execute
        \<lparr>conversations = [conversation_row ''c1'' [''0xaa'', ''0xbb''] ''hi'' 10,
                          conversation_row ''c2'' [''0xaa'', ''0xcc''] ''hi'' 20],
         messages = [], attachments = []\<rparr>
        [InsertMessage alice 0 (defaults ''c3'') (message_row ''m3'' ''0xaa'' ''0xaa'' ''n1'' 30),
         InsertMessage alice 1 (defaults ''c4'') (message_row ''m4'' ''0xaa'' ''0xaa'' ''n2'' 40)]))
      = [Some ''c1'', Some ''c2'']"
  by (simp add: eval_defs2)

lemma length_two_other:
  assumes "length xs = 2" and "a \<in> set xs" and "xs \<noteq> [a, a]"
  shows "\<exists>b. b \<noteq> a \<and> b \<in> set xs"
proof -
  from assms(1) obtain x y where xs: "xs = [x, y]"
    by (cases xs; cases "tl xs") auto
  with assms(2,3) show ?thesis by auto
qed

text \<open>
  C9 (as amended): a message with sender equal to receiver and no \<open>conversation_id\<close>,
  inserted while the identity has a two-participant conversation with a different
  identity, makes the before-insert trigger create nothing and bind the message to an
  existing two-participant conversation that holds the identity. When no row has the
  participants \<open>[a, a]\<close>, the bound conversation is one with a different identity.
\<close>

theorem self_message_binds_existing:
  assumes "m_sender row = a" and "m_receiver row = a" and "m_conversation_id row = None"
    and "list_ex (\<lambda>c. two_party_with a a c \<and> c_participants c \<noteq> [a, a]) (conversations db)"
  shows "\<exists>c \<in> set (conversations db).
      update_conversation_on_message k dflt db row = (db, row\<lparr>m_conversation_id := Some (c_id c)\<rparr>)
      \<and> two_party_with a a c
      \<and> (list_all (\<lambda>c. c_participants c \<noteq> [a, a]) (conversations db) \<longrightarrow>
           (\<exists>b. b \<noteq> a \<and> two_party_with a b c))"
proof -
  from assms(1,2,4) have "filter (conversation_matches row) (conversations db) \<noteq> []"
    by (auto simp: filter_empty_conv matches_two_party list_ex_iff)
  from on_message_found [OF assms(3) this, of k dflt]
  obtain c where c: "c \<in> set (conversations db)" "conversation_matches row c"
    and u: "update_conversation_on_message k dflt db row
        = (db, row\<lparr>m_conversation_id := Some (c_id c)\<rparr>)"
    by auto
  from c(2) assms(1,2) have tp: "two_party_with a a c"
    by (simp add: matches_two_party)
  have "list_all (\<lambda>c. c_participants c \<noteq> [a, a]) (conversations db) \<longrightarrow>
           (\<exists>b. b \<noteq> a \<and> two_party_with a b c)"
  proof
    assume "list_all (\<lambda>c. c_participants c \<noteq> [a, a]) (conversations db)"
    with c(1) have "c_participants c \<noteq> [a, a]"
      by (auto simp: list_all_iff)
    with tp obtain b where "b \<noteq> a" "b \<in> set (c_participants c)"
      using length_two_other [of "c_participants c" a]
      by (auto simp: two_party_with_def)
    with tp show "\<exists>b. b \<noteq> a \<and> two_party_with a b c"
      by (auto simp: two_party_with_def)
  qed
  with c(1) u tp show ?thesis by blast
qed

theorem self_message_binds_existing_witness:
  "list_ex (\<lambda>c. two_party_with ''0xaa'' ''0xaa'' c \<and> c_participants c \<noteq> [''0xaa'', ''0xaa''])
      [conversation_row ''c1'' [''0xbb'', ''0xaa''] ''hi'' 10]
   \<and> list_all (\<lambda>c. c_participants c \<noteq> [''0xaa'', ''0xaa''])
      [conversation_row ''c1'' [''0xbb'', ''0xaa''] ''hi'' 10]
   \<and> update_conversation_on_message 7 (defaults ''c2'')
        \<lparr>conversations = [conversation_row ''c1'' [''0xbb'', ''0xaa''] ''hi'' 10],
         messages = [], attachments = []\<rparr>
        (message_row ''m2'' ''0xaa'' ''0xaa'' ''note'' 20)
      = (\<lparr>conversations = [conversation_row ''c1'' [''0xbb'', ''0xaa''] ''hi'' 10],
          messages = [], attachments = []\<rparr>,
         (message_row ''m2'' ''0xaa'' ''0xaa'' ''note'' 20)\<lparr>m_conversation_id := Some ''c1''\<rparr>)"
proof -
  let ?db = "\<lparr>conversations = [conversation_row ''c1'' [''0xbb'', ''0xaa''] ''hi'' 10],
         messages = [], attachments = []\<rparr>"
  let ?row = "message_row ''m2'' ''0xaa'' ''0xaa'' ''note'' 20"
  have h: "list_ex (\<lambda>c. two_party_with ''0xaa'' ''0xaa'' c \<and> c_participants c \<noteq> [''0xaa'', ''0xaa''])
      (conversations ?db)"
    by (simp add: eval_defs2)
  have s: "m_sender ?row = ''0xaa''" "m_receiver ?row = ''0xaa''" "m_conversation_id ?row = None"
    by (simp_all add: message_row_def)
  from self_message_binds_existing [OF s h, of 7 "defaults ''c2''"]
  show ?thesis
    by (simp add: eval_defs2)
qed

text \<open>
  From the empty database: a self-message makes the row \<open>[a, a]\<close>, a message to another
  identity makes a second row, and the next self-message is bound to the row \<open>[a, a]\<close>.
\<close>

theorem self_message_dedicated_counterexample:
  "map c_participants (conversations (foldl execute empty_database
      [InsertMessage alice 0 (defaults ''c1'') (message_row ''m1'' ''0xaa'' ''0xaa'' ''note'' 10),
       InsertMessage alice 0 (defaults ''c2'') (message_row ''m2'' ''0xaa'' ''0xbb'' ''hi'' 20)]))
     = [[''0xaa'', ''0xaa''], [''0xaa'', ''0xbb'']]
   \<and> map c_id (conversations (foldl execute empty_database
      [InsertMessage alice 0 (defaults ''c1'') (message_row ''m1'' ''0xaa'' ''0xaa'' ''note'' 10),
       InsertMessage alice 0 (defaults ''c2'') (message_row ''m2'' ''0xaa'' ''0xbb'' ''hi'' 20)]))
     = [''c1'', ''c2'']
   \<and> m_conversation_id (snd (update_conversation_on_message 0 (defaults ''c3'')
        (foldl execute empty_database
          [InsertMessage alice 0 (defaults ''c1'') (message_row ''m1'' ''0xaa'' ''0xaa'' ''note'' 10),
           InsertMessage alice 0 (defaults ''c2'') (message_row ''m2'' ''0xaa'' ''0xbb'' ''hi'' 20)])
        (message_row ''m3'' ''0xaa'' ''0xaa'' ''again'' 30)))
     = Some ''c1''"
  by (simp add: eval_defs2)











text \<open>
  C3 (as amended): the policies of the migration on \<open>storage.objects\<close> admit a command
  (select, insert, update or delete) on an object exactly for an authenticated session
  and an object of the bucket \<open>attachments\<close>, whoever the principal is. Participation in
  the conversation of the attachment's message is tested by the policies of the table
  \<open>attachments\<close>: they admit an insert exactly when a message with the attachment's
  \<open>message_id\<close>, of which the principal is sender or receiver (the join sees the rows
  that row-level security shows the caller), joins a conversation whose participants
  hold the principal's identity; and they admit no update and no delete.
\<close>

theorem attachments_bucket_gate:
  "storage_objects_admits role cmd obj
     = (role = authenticated \<and> bucket_id obj = ''attachments'')
   \<and> attachments_admits role Insert p db a
     = (role = authenticated
        \<and> (\<exists>m \<in> set (messages db). \<exists>c \<in> set (conversations db).
              Some (c_id c) = m_conversation_id m \<and> m_id m = a_message_id a
              \<and> (\<exists>w. get_user_wallet_address p = Inr w \<and> w \<in> set (c_participants c)
                    \<and> (w = m_sender m \<or> w = m_receiver m))))
   \<and> \<not> attachments_admits role Update p db a
   \<and> \<not> attachments_admits role Delete p db a"
proof (intro conjI)
  show "storage_objects_admits role cmd obj
     = (role = authenticated \<and> bucket_id obj = ''attachments'')"
    by (cases cmd)
      (simp_all add: storage_objects_admits_def attachments_bucket_select_policy_def
        attachments_bucket_insert_policy_def attachments_bucket_update_policy_def
        attachments_bucket_delete_policy_def)
  show "attachments_admits role Insert p db a
     = (role = authenticated
        \<and> (\<exists>m \<in> set (messages db). \<exists>c \<in> set (conversations db).
              Some (c_id c) = m_conversation_id m \<and> m_id m = a_message_id a
              \<and> (\<exists>w. get_user_wallet_address p = Inr w \<and> w \<in> set (c_participants c)
                    \<and> (w = m_sender m \<or> w = m_receiver m))))"
  proof (cases "get_user_wallet_address p")
    case (Inl e)
    then show ?thesis
      by (simp add: attachments_admits_def attachments_insert_policy_def list_ex_iff
          wallet_address_any_def)
  next
    case (Inr w)
    then show ?thesis
      by (auto simp: attachments_admits_def attachments_insert_policy_def list_ex_iff
          wallet_address_any_def visible_messages_def visible_conversations_def
          messages_select_policy_def conversations_select_policy_def)
  qed
  show "\<not> attachments_admits role Update p db a"
    by (simp add: attachments_admits_def)
  show "\<not> attachments_admits role Delete p db a"
    by (simp add: attachments_admits_def)
qed

text \<open>
  A principal who is a participant of no conversation, hence not of the conversation of
  the message \<open>m1\<close> either, may insert, update and delete an object of the bucket.
\<close>

theorem bucket_write_by_outsider_counterexample:
  "storage_objects_admits authenticated Insert
      \<lparr>bucket_id = ''attachments'', object_name = ''m1/photo.png''\<rparr>
   \<and> storage_objects_admits authenticated Update
      \<lparr>bucket_id = ''attachments'', object_name = ''m1/photo.png''\<rparr>
   \<and> storage_objects_admits authenticated Delete
      \<lparr>bucket_id = ''attachments'', object_name = ''m1/photo.png''\<rparr>
   \<and> \<not> attachments_insert_policy carol
      \<lparr>conversations = [conversation_row ''c1'' [''0xaa'', ''0xbb''] ''hi'' 10],
       messages = [\<lparr>m_id = ''m1'', m_conversation_id = Some ''c1'', m_sender = ''0xaa'',
                    m_receiver = ''0xbb'', m_content = ''hi'', m_created_at = 10\<rparr>],
       attachments = [\<lparr>a_message_id = ''m1''\<rparr>]\<rparr>
      \<lparr>a_message_id = ''m1''\<rparr>
   \<and> \<not> list_ex (\<lambda>c. wallet_address_any carol (c_participants c))
      [conversation_row ''c1'' [''0xaa'', ''0xbb''] ''hi'' 10]"
  by (simp add: storage_objects_admits_def attachments_bucket_insert_policy_def
      attachments_bucket_update_policy_def attachments_bucket_delete_policy_def
      attachments_insert_policy_def wallet_address_any_def carol_address conversation_row_def
      visible_messages_def visible_conversations_def messages_select_policy_def
      conversations_select_policy_def)

section \<open>Properties of the reconciliation engine\<close>

lemmas engine_eval = onMessage_def send_append_def send_succeeded_def send_failed_def
  handleSend_def localMessage_def targetRecipient_def generateConversationsFromMessages_def
  forEach_body_def conversationId_def toISOString_def getTime_def valid_time_def
  TimeClip_def upper_case_def lower_case_def
  sort_by_timestamp_def toLowerCase_def toLowerCase_char_def trim_def is_space_def
  initializeMessaging_def loadMessagesFromLocal_def initial_engine_def mk_message_def
  times_valid_def mutation_time_valid_def Let_def

lemma forEach_body_returns:
  "valid_time (timestamp message) \<Longrightarrow> \<exists>cm'. forEach_body cm message = Inr cm'"
  by (simp add: forEach_body_def toISOString_def split: option.splits)

lemma forEach_returns:
  "list_all (\<lambda>m. valid_time (timestamp m)) ms \<Longrightarrow> \<exists>cm'. forEach ms cm = Inr cm'"
proof (induction ms arbitrary: cm)
  case Nil
  then show ?case by simp
next
  case (Cons m ms)
  then obtain cm1 where "forEach_body cm m = Inr cm1"
    using forEach_body_returns [of m cm] by auto
  with Cons show ?case by simp
qed

lemma generate_returns:
  "list_all (\<lambda>m. valid_time (timestamp m)) ms \<Longrightarrow>
   \<exists>st'. generateConversationsFromMessages w ms st = Inr st'"
  using forEach_returns [of ms "[]"]
  by (auto simp: generateConversationsFromMessages_def split: option.splits)

lemma generate_messages:
  "generateConversationsFromMessages w ms st = Inr st' \<Longrightarrow> st_messages st' = st_messages st"
  by (auto simp: generateConversationsFromMessages_def split: option.splits if_splits sum.splits)

lemma send_append_messages:
  "send_append w st m = Inr st' \<Longrightarrow> st_messages st' = sort_key timestamp (st_messages st @ [m])"
  by (auto simp: send_append_def sort_by_timestamp_def Let_def split: sum.splits)

lemma send_append_returns:
  assumes "list_all (\<lambda>m. valid_time (timestamp m)) (m # st_messages st)"
  shows "\<exists>st'. send_append w st m = Inr st'"
proof -
  from assms have "list_all (\<lambda>m. valid_time (timestamp m)) (sort_key timestamp (st_messages st @ [m]))"
    by (simp add: list_all_iff)
  from generate_returns [OF this, of w st] show ?thesis
    by (auto simp: send_append_def sort_by_timestamp_def Let_def)
qed

lemma onMessage_duplicate:
  "list_ex (\<lambda>m. msg_id m = msg_id message) (st_messages st) \<Longrightarrow> onMessage w st message = Inr st"
  by (simp add: onMessage_def)

lemma onMessage_fresh:
  "\<not> list_ex (\<lambda>m. msg_id m = msg_id message) (st_messages st) \<Longrightarrow>
   onMessage w st message = send_append w st message"
  by (simp add: onMessage_def send_append_def)

lemma status_map_timestamps:
  "map timestamp (map (\<lambda>msg. if P msg then msg\<lparr>status := s\<rparr> else msg) xs) = map timestamp xs"
  by (induction xs) auto

lemma send_succeeded_timestamps:
  "map timestamp (st_messages (send_succeeded st i)) = map timestamp (st_messages st)"
  by (simp add: send_succeeded_def status_map_timestamps)

lemma send_failed_timestamps:
  "map timestamp (st_messages (send_failed st)) = map timestamp (st_messages st)"
  by (simp add: send_failed_def status_map_timestamps)

lemma sorted_sort_by: "sorted (map timestamp (sort_key timestamp xs))"
  by (rule sorted_sort_key)

lemma handleSend_cases:
  assumes "handleSend w form env st = Inr st'"
  shows "st' = st
    \<or> (\<exists>a st1. w = Some a \<and> send_append w st (localMessage a form env) = Inr st1
          \<and> (st' = send_succeeded st1 (msg_id (localMessage a form env)) \<or> st' = send_failed st1))"
  using assms
  by (auto simp: handleSend_def split: option.splits if_splits sum.splits)

lemma mutate_sorted:
  assumes "mutate w st m = Inr st'" and "sorted (map timestamp (st_messages st))"
  shows "sorted (map timestamp (st_messages st'))"
proof (cases m)
  case (Inbound message)
  show ?thesis
  proof (cases "list_ex (\<lambda>m. msg_id m = msg_id message) (st_messages st)")
    case True
    with assms Inbound show ?thesis by (simp add: onMessage_duplicate)
  next
    case False
    with assms Inbound have "send_append w st message = Inr st'"
      by (simp add: onMessage_fresh)
    then show ?thesis by (simp add: send_append_messages sorted_sort_by)
  qed
next
  case (LocalSend form env)
  with assms(1) have "handleSend w form env st = Inr st'" by simp
  from handleSend_cases [OF this] assms(2) show ?thesis
    by (auto simp: send_append_messages send_succeeded_timestamps send_failed_timestamps
        sorted_sort_by)
next
  case (SendAppend message)
  with assms show ?thesis by (simp add: send_append_messages sorted_sort_by)
next
  case (SendSucceeded i)
  with assms show ?thesis by (auto simp: send_succeeded_timestamps)
next
  case SendFailed
  with assms show ?thesis by (auto simp: send_failed_timestamps)
qed

lemma mutate_longer_sorted:
  assumes "mutate w st m = Inr st'"
    and "length (st_messages st) < length (st_messages st')"
  shows "sorted (map timestamp (st_messages st'))"
proof (cases m)
  case (Inbound message)
  show ?thesis
  proof (cases "list_ex (\<lambda>m. msg_id m = msg_id message) (st_messages st)")
    case True
    with assms Inbound show ?thesis by (simp add: onMessage_duplicate)
  next
    case False
    with assms Inbound have "send_append w st message = Inr st'"
      by (simp add: onMessage_fresh)
    then show ?thesis by (simp add: send_append_messages sorted_sort_by)
  qed
next
  case (LocalSend form env)
  with assms(1) have "handleSend w form env st = Inr st'" by simp
  from handleSend_cases [OF this] assms(2) show ?thesis
    by (auto simp: send_append_messages send_succeeded_timestamps send_failed_timestamps
        sorted_sort_by)
next
  case (SendAppend message)
  with assms show ?thesis by (simp add: send_append_messages sorted_sort_by)
next
  case (SendSucceeded i)
  with assms show ?thesis by (auto simp: send_succeeded_def)
next
  case SendFailed
  with assms show ?thesis by (auto simp: send_failed_def)
qed

lemma mutations_sorted:
  "mutations w st ms = Inr st' \<Longrightarrow> sorted (map timestamp (st_messages st)) \<Longrightarrow>
   sorted (map timestamp (st_messages st'))"
proof (induction ms arbitrary: st)
  case Nil
  then show ?case by simp
next
  case (Cons m ms)
  from Cons.prems(1) obtain st1 where m: "mutate w st m = Inr st1"
    and r: "mutations w st1 ms = Inr st'"
    by (auto split: sum.splits)
  from mutate_sorted [OF m Cons.prems(2)] r show ?case
    by (rule Cons.IH [rotated])
qed

lemma times_valid_all: "times_valid xs = list_all (\<lambda>m. valid_time (timestamp m)) xs"
  by (simp add: times_valid_def list.pred_map comp_def)

lemma send_append_valid:
  assumes "times_valid (st_messages st)" and "valid_time (timestamp m)"
  shows "\<exists>st'. send_append w st m = Inr st' \<and> times_valid (st_messages st')"
proof -
  from assms have "list_all (\<lambda>m. valid_time (timestamp m)) (m # st_messages st)"
    by (simp add: times_valid_all)
  from send_append_returns [OF this, of w] obtain st' where s: "send_append w st m = Inr st'"
    by blast
  from assms have "times_valid (sort_key timestamp (st_messages st @ [m]))"
    by (simp add: times_valid_all list_all_iff)
  with s show ?thesis
    by (simp add: send_append_messages)
qed

lemma mutate_valid:
  assumes "times_valid (st_messages st)" and "mutation_time_valid m"
  shows "\<exists>st'. mutate w st m = Inr st' \<and> times_valid (st_messages st')"
proof (cases m)
  case (Inbound msg)
  show ?thesis
  proof (cases "list_ex (\<lambda>m. msg_id m = msg_id msg) (st_messages st)")
    case True
    with assms Inbound show ?thesis by (simp add: onMessage_duplicate)
  next
    case False
    with assms Inbound send_append_valid [of st msg w] show ?thesis
      by (simp add: onMessage_fresh mutation_time_valid_def)
  qed
next
  case (LocalSend form env)
  show ?thesis
  proof (cases "\<exists>a. w = Some a \<and> trim (newMessage form) \<noteq> [] \<and> a \<noteq> []
      \<and> trim (targetRecipient a form) \<noteq> []")
    case False
    then have "handleSend w form env st = Inr st"
      by (auto simp: handleSend_def split: option.splits)
    with assms LocalSend show ?thesis by simp
  next
    case True
    then obtain a where a: "w = Some a" "trim (newMessage form) \<noteq> []" "a \<noteq> []"
      "trim (targetRecipient a form) \<noteq> []"
      by blast
    from assms LocalSend have "valid_time (timestamp (localMessage a form env))"
      by (simp add: mutation_time_valid_def localMessage_def)
    from send_append_valid [OF assms(1) this, of w]
    obtain st1 where s: "send_append w st (localMessage a form env) = Inr st1"
      and v: "times_valid (st_messages st1)"
      by blast
    from v have "times_valid (st_messages (send_succeeded st1 i))" for i
      by (simp add: times_valid_def send_succeeded_timestamps)
    moreover from v have "times_valid (st_messages (send_failed st1))"
      by (simp add: times_valid_def send_failed_timestamps)
    ultimately show ?thesis
      using a s LocalSend by (simp add: handleSend_def)
  qed
next
  case (SendAppend msg)
  with assms send_append_valid [of st msg w] show ?thesis
    by (simp add: mutation_time_valid_def)
next
  case (SendSucceeded i)
  with assms show ?thesis
    by (simp add: times_valid_def send_succeeded_timestamps)
next
  case SendFailed
  with assms show ?thesis
    by (simp add: times_valid_def send_failed_timestamps)
qed

lemma mutations_valid:
  "times_valid (st_messages st) \<Longrightarrow> list_all mutation_time_valid ms \<Longrightarrow>
   \<exists>st'. mutations w st ms = Inr st'"
proof (induction ms arbitrary: st)
  case Nil
  then show ?case by simp
next
  case (Cons m ms)
  from Cons.prems obtain st1 where "mutate w st m = Inr st1" "times_valid (st_messages st1)"
    using mutate_valid [of st m w] by auto
  with Cons show ?case by simp
qed

lemma initializeMessaging_messages:
  "st_messages (initializeMessaging w ok persisted st)
     = (case w of
          None \<Rightarrow> st_messages st
        | Some a \<Rightarrow> if a = [] \<or> \<not> ok then st_messages st else persisted)"
  by (auto simp: initializeMessaging_def loadMessagesFromLocal_def Let_def
      split: option.splits sum.splits dest: generate_messages)

lemma initializeMessaging_sorted:
  "sorted (map timestamp persisted) \<Longrightarrow>
   sorted (map timestamp (st_messages (initializeMessaging w ok persisted initial_engine)))"
  by (simp add: initializeMessaging_messages initial_engine_def split: option.splits)

lemma initializeMessaging_valid:
  "times_valid persisted \<Longrightarrow>
   times_valid (st_messages (initializeMessaging w ok persisted initial_engine))"
  by (simp add: initializeMessaging_messages initial_engine_def times_valid_def
      split: option.splits)

text \<open>
  C7 (as amended): the initial load stores the loaded sequence as it comes. When that
  sequence is non-decreasing by timestamp, the message list is non-decreasing after
  every sequence of mutations (inbound messages, local sends, and the single updates of
  a send); whatever the list was, once a mutation has made it longer it is
  non-decreasing from then on. The mutations complete when the timestamps are time
  values of \<open>Date\<close>.
\<close>

theorem sorted_after_mutations:
  "(sorted (map timestamp persisted)
      \<and> mutations w (initializeMessaging w ok persisted initial_engine) ms = Inr st' \<longrightarrow>
    sorted (map timestamp (st_messages st')))
   \<and> (mutate w st m = Inr st1 \<and> length (st_messages st) < length (st_messages st1)
      \<and> mutations w st1 ms = Inr st' \<longrightarrow>
    sorted (map timestamp (st_messages st')))
   \<and> (times_valid persisted \<and> list_all mutation_time_valid ms \<longrightarrow>
    (\<exists>st2. mutations w (initializeMessaging w ok persisted initial_engine) ms = Inr st2))"
proof (intro conjI impI)
  assume "sorted (map timestamp persisted)
      \<and> mutations w (initializeMessaging w ok persisted initial_engine) ms = Inr st'"
  then show "sorted (map timestamp (st_messages st'))"
    using mutations_sorted initializeMessaging_sorted by blast
next
  assume "mutate w st m = Inr st1 \<and> length (st_messages st) < length (st_messages st1)
      \<and> mutations w st1 ms = Inr st'"
  then show "sorted (map timestamp (st_messages st'))"
    using mutations_sorted mutate_longer_sorted by blast
next
  assume "times_valid persisted \<and> list_all mutation_time_valid ms"
  then show "\<exists>st2. mutations w (initializeMessaging w ok persisted initial_engine) ms = Inr st2"
    using mutations_valid initializeMessaging_valid by blast
qed

theorem sorted_after_mutations_witness:
  "sorted (map timestamp [mk_message ''m1'' ''0xbb'' ''0xaa'' ''a'' 10,
                          mk_message ''m2'' ''0xbb'' ''0xaa'' ''b'' 30])
   \<and> (case mutations (Some ''0xaa'')
          (initializeMessaging (Some ''0xaa'') True
             [mk_message ''m1'' ''0xbb'' ''0xaa'' ''a'' 10, mk_message ''m2'' ''0xbb'' ''0xaa'' ''b'' 30]
             initial_engine)
          [Inbound (mk_message ''m3'' ''0xbb'' ''0xaa'' ''c'' 20),
           Inbound (mk_message ''m1'' ''0xbb'' ''0xaa'' ''a'' 10),
           LocalSend \<lparr>newMessage = ''hello'', recipient = ''0xBB'',
                      selectedConversation = None, encryptionEnabled = True\<rparr>
                     \<lparr>randomUUID = ''m4'', now = 25, sendMessage_ok = True\<rparr>] of
        Inl e \<Rightarrow> []
      | Inr st' \<Rightarrow> map timestamp (st_messages st')) = [10, 20, 25, 30]"
proof -
  let ?p = "[mk_message ''m1'' ''0xbb'' ''0xaa'' ''a'' 10, mk_message ''m2'' ''0xbb'' ''0xaa'' ''b'' 30]"
  let ?ms = "[Inbound (mk_message ''m3'' ''0xbb'' ''0xaa'' ''c'' 20),
           Inbound (mk_message ''m1'' ''0xbb'' ''0xaa'' ''a'' 10),
           LocalSend \<lparr>newMessage = ''hello'', recipient = ''0xBB'',
                      selectedConversation = None, encryptionEnabled = True\<rparr>
                     \<lparr>randomUUID = ''m4'', now = 25, sendMessage_ok = True\<rparr>]"
  let ?w = "Some ''0xaa''"
  have s: "sorted (map timestamp ?p)"
    by (simp add: mk_message_def)
  have v: "times_valid ?p \<and> list_all mutation_time_valid ?ms"
    by (simp add: times_valid_def mutation_time_valid_def valid_time_def mk_message_def)
  obtain st2 where r: "mutations ?w (initializeMessaging ?w True ?p initial_engine) ?ms = Inr st2"
    using sorted_after_mutations [of ?p ?w True ?ms] v by blast
  have "sorted (map timestamp (st_messages st2))"
    using sorted_after_mutations [of ?p ?w True ?ms st2] s r by blast
  moreover have "mutations ?w (initializeMessaging ?w True ?p initial_engine) ?ms
      = Inr st2 \<Longrightarrow> map timestamp (st_messages st2) = [10, 20, 25, 30]"
    by (simp add: engine_eval) auto
  ultimately show ?thesis
    using s r by simp
qed

text \<open>
  A loaded sequence that is not ordered by timestamp is the message list after the
  initial load, as it came.
\<close>

theorem initial_load_unsorted_counterexample:
  "map timestamp (st_messages (initializeMessaging (Some ''0xaa'') True
      [mk_message ''m2'' ''0xbb'' ''0xaa'' ''later'' 30, mk_message ''m1'' ''0xbb'' ''0xaa'' ''earlier'' 10]
      initial_engine)) = [30, 10]
   \<and> \<not> sorted (map timestamp (st_messages (initializeMessaging (Some ''0xaa'') True
      [mk_message ''m2'' ''0xbb'' ''0xaa'' ''later'' 30, mk_message ''m1'' ''0xbb'' ''0xaa'' ''earlier'' 10]
      initial_engine)))"
  by (simp add: engine_eval)



text \<open>
  The update of the \<open>catch\<close> block removes no message and changes no id, content or
  \<open>encrypted\<close> flag; only the status of the marked messages changes.
\<close>

lemma status_map_keeps:
  "map msg_id (map (\<lambda>msg. if P msg then msg\<lparr>status := s\<rparr> else msg) xs) = map msg_id xs
   \<and> map encrypted (map (\<lambda>msg. if P msg then msg\<lparr>status := s\<rparr> else msg) xs) = map encrypted xs
   \<and> map content (map (\<lambda>msg. if P msg then msg\<lparr>status := s\<rparr> else msg) xs) = map content xs"
  by (induction xs) auto

lemma send_failed_keeps:
  "map msg_id (st_messages (send_failed st)) = map msg_id (st_messages st)
   \<and> map encrypted (st_messages (send_failed st)) = map encrypted (st_messages st)
   \<and> map content (st_messages (send_failed st)) = map content (st_messages st)"
  by (simp add: send_failed_def status_map_keeps)

text \<open>
  C8: the update of the \<open>catch\<close> block marks the messages that carry the id of the last
  element of the list, not the id of the message the send made. With a message of a
  later timestamp in the list (already there, or inbound while the send awaits the
  transport) the local message stays \<open>sending\<close> and the other message becomes \<open>failed\<close>.
\<close>

theorem handleSend_failure_marks_last_message:
  "(case handleSend (Some ''0xAA'')
          \<lparr>newMessage = ''hello'', recipient = ''0xBB'', selectedConversation = None,
           encryptionEnabled = False\<rparr>
          \<lparr>randomUUID = ''local'', now = 1000, sendMessage_ok = False\<rparr>
          \<lparr>st_messages = [mk_message ''m1'' ''0xbb'' ''0xaa'' ''hi'' 2000], st_conversations = []\<rparr> of
      Inl e \<Rightarrow> []
    | Inr st' \<Rightarrow> map (\<lambda>m. (msg_id m, status m)) (st_messages st'))
     = [(''local'', sending), (''m1'', failed)]
   \<and> (case mutations (Some ''0xAA'') initial_engine
          [SendAppend ((mk_message ''local'' ''0xaa'' ''0xbb'' ''hello'' 1000)\<lparr>status := sending\<rparr>),
           Inbound (mk_message ''m1'' ''0xbb'' ''0xaa'' ''hi'' 1500),
           SendFailed] of
      Inl e \<Rightarrow> []
    | Inr st' \<Rightarrow> map (\<lambda>m. (msg_id m, status m)) (st_messages st'))
     = [(''local'', sending), (''m1'', failed)]"
  by (simp add: engine_eval)

lemma first_latest_single: "first_latest [m] = m"
  by (simp add: first_latest_def)

lemma first_latest_time:
  assumes "g \<noteq> []"
  shows "timestamp (first_latest g) = Max (set (map timestamp g))"
proof -
  let ?mx = "Max (set (map timestamp g))"
  from assms have "?mx \<in> set (map timestamp g)"
    by (intro Max_in) auto
  then have "filter (\<lambda>m. timestamp m = ?mx) g \<noteq> []"
    by (auto simp: filter_empty_conv)
  then have "hd (filter (\<lambda>m. timestamp m = ?mx) g) \<in> set (filter (\<lambda>m. timestamp m = ?mx) g)"
    by (rule hd_in_set)
  then show ?thesis
    by (simp add: first_latest_def)
qed

lemma Max_snoc:
  "g \<noteq> [] \<Longrightarrow> Max (set (map f (g @ [m]))) = max (f m) (Max (set (map f g)))"
  by simp

lemma first_latest_snoc_later:
  assumes "g \<noteq> []" and "Max (set (map timestamp g)) < timestamp m"
  shows "first_latest (g @ [m]) = m"
proof -
  define mx where "mx = Max (set (map timestamp g))"
  have ge: "timestamp x \<le> mx" if "x \<in> set g" for x
    unfolding mx_def using that by (intro Max_ge) auto
  from assms(2) have lt: "mx < timestamp m"
    by (simp only: mx_def)
  have "Max (set (map timestamp (g @ [m]))) = max (timestamp m) mx"
    unfolding mx_def using assms(1) by (rule Max_snoc)
  with lt have mx': "Max (set (map timestamp (g @ [m]))) = timestamp m"
    by (simp add: max_def)
  have "timestamp x \<noteq> timestamp m" if "x \<in> set g" for x
    using ge [OF that] lt by simp
  then have "filter (\<lambda>x. timestamp x = timestamp m) g = []"
    by (simp add: filter_empty_conv)
  with mx' show ?thesis
    by (simp only: first_latest_def filter_append append_Nil filter.simps) simp
qed

lemma first_latest_snoc_not_later:
  assumes "g \<noteq> []" and "\<not> Max (set (map timestamp g)) < timestamp m"
  shows "first_latest (g @ [m]) = first_latest g"
proof -
  define mx where "mx = Max (set (map timestamp g))"
  from assms(2) have le: "timestamp m \<le> mx"
    by (simp only: mx_def not_less)
  have "Max (set (map timestamp (g @ [m]))) = max (timestamp m) mx"
    unfolding mx_def using assms(1) by (rule Max_snoc)
  with le have mx': "Max (set (map timestamp (g @ [m]))) = mx"
    by (simp add: max_def)
  from assms(1) have "mx \<in> set (map timestamp g)"
    unfolding mx_def by (intro Max_in) auto
  then have "filter (\<lambda>x. timestamp x = mx) g \<noteq> []"
    by (auto simp: filter_empty_conv)
  then have "hd (filter (\<lambda>x. timestamp x = mx) (g @ [m])) = hd (filter (\<lambda>x. timestamp x = mx) g)"
    by simp
  then show ?thesis
    by (simp only: first_latest_def mx' mx_def [symmetric])
qed

lemma group_of_snoc:
  "group_of k (ms @ [m]) = (if conversationId m = k then group_of k ms @ [m] else group_of k ms)"
  by (simp add: group_of_def)

lemma map_of_update_key:
  "map_of (map (\<lambda>(k, c). if k = k0 then (k, f c) else (k, c)) cm) k
     = (if k = k0 then map_option f (map_of cm k) else map_of cm k)"
  by (induction cm) auto

lemma fst_update_key:
  "map fst (map (\<lambda>(k, c). if k = k0 then (k, f c) else (k, c)) cm) = map fst cm"
  by (induction cm) auto

lemma map_of_snoc:
  "map_of (cm @ [(k0, v)]) k
     = (case map_of cm k of None \<Rightarrow> if k = k0 then Some v else None | Some x \<Rightarrow> Some x)"
  by (induction cm) (auto split: option.splits)

lemma TimeClip_integer: "t \<in> \<int> \<Longrightarrow> of_int (TimeClip t) = t"
  by (auto simp: TimeClip_def elim: Ints_cases)

lemma derived_step:
  assumes inv: "derived cm ms" and step: "forEach_body cm m = Inr cm'"
    and int: "timestamp m \<in> \<int>"
  shows "derived cm' (ms @ [m])"
proof -
  note clip = TimeClip_integer [OF int]
  let ?k0 = "conversationId m"
  from inv have dist: "distinct (map fst cm)"
    and look0: "\<forall>k. if group_of k ms = [] then map_of cm k = None
              else \<exists>c. map_of cm k = Some c \<and> summary_of k (group_of k ms) c"
    unfolding derived_def by blast+
  have look: "if group_of k ms = [] then map_of cm k = None
              else \<exists>c. map_of cm k = Some c \<and> summary_of k (group_of k ms) c" for k
    using look0 by blast
  show ?thesis
  proof (cases "map_of cm ?k0")
    case None
    with look [of ?k0] have g0: "group_of ?k0 ms = []"
      by (auto split: if_splits)
    from None step have v: "valid_time (timestamp m)"
      by (auto simp: forEach_body_def toISOString_def split: if_splits)
    define new where "new = \<lparr>conv_id = ?k0, participants = sort [sender m, receiver m],
        last_message = content m, last_message_time = TimeClip (timestamp m),
        is_group = False\<rparr>"
    from None step v have cm': "cm' = cm @ [(?k0, new)]"
      by (simp add: forEach_body_def toISOString_def new_def)
    from None have notin: "?k0 \<notin> fst ` set cm"
      by (simp add: map_of_eq_None_iff)
    have d: "distinct (map fst cm')"
      using dist notin by (simp add: cm')
    have l: "if group_of k (ms @ [m]) = [] then map_of cm' k = None
              else \<exists>c. map_of cm' k = Some c \<and> summary_of k (group_of k (ms @ [m])) c" for k
    proof (cases "k = ?k0")
      case True
      have "map_of cm' ?k0 = Some new"
        unfolding cm' map_of_snoc using None by simp
      moreover have "summary_of ?k0 [m] new"
        by (simp add: summary_of_def first_latest_single new_def clip)
      ultimately show ?thesis
        using True g0 by (simp add: group_of_snoc)
    next
      case False
      then have "map_of cm' k = map_of cm k"
        unfolding cm' map_of_snoc by (simp split: option.splits)
      with False look [of k] show ?thesis
        by (simp add: group_of_snoc)
    qed
    from d l show ?thesis
      unfolding derived_def by blast
  next
    case (Some c)
    with look [of ?k0] have g0: "group_of ?k0 ms \<noteq> []"
      and sc: "summary_of ?k0 (group_of ?k0 ms) c"
      by (auto split: if_splits)
    let ?g = "group_of ?k0 ms"
    from sc have tc: "of_int (last_message_time c) = Max (set (map timestamp ?g))"
      by (simp add: summary_of_def)
    from g0 have hdg: "hd (?g @ [m]) = hd ?g"
      by simp
    show ?thesis
    proof (cases "timestamp m > getTime (last_message_time c)")
      case True
      with Some step have v: "valid_time (timestamp m)"
        by (auto simp: forEach_body_def toISOString_def split: if_splits)
      let ?c' = "c\<lparr>last_message := content m, last_message_time := TimeClip (timestamp m)\<rparr>"
      from Some step True v
      have cm': "cm' = map (\<lambda>(k, c). if k = ?k0
            then (k, c\<lparr>last_message := content m,
                      last_message_time := TimeClip (timestamp m)\<rparr>)
            else (k, c)) cm"
        by (simp add: forEach_body_def toISOString_def)
      from True tc have later: "Max (set (map timestamp ?g)) < timestamp m"
        by (simp add: getTime_def)
      have fl: "first_latest (?g @ [m]) = m"
        using g0 later by (rule first_latest_snoc_later)
      have mx: "Max (set (map timestamp (?g @ [m]))) = timestamp m"
        using first_latest_time [of "?g @ [m]"] fl by simp
      have d: "distinct (map fst cm')"
        unfolding cm' fst_update_key by (rule dist)
      have l: "if group_of k (ms @ [m]) = [] then map_of cm' k = None
              else \<exists>c. map_of cm' k = Some c \<and> summary_of k (group_of k (ms @ [m])) c" for k
      proof (cases "k = ?k0")
        case True
        have "map_of cm' ?k0 = Some ?c'"
          unfolding cm' map_of_update_key using Some by simp
        moreover have "summary_of ?k0 (?g @ [m]) ?c'"
          using sc hdg fl mx by (simp add: summary_of_def clip)
        ultimately show ?thesis
          using True by (simp add: group_of_snoc)
      next
        case False
        then have "map_of cm' k = map_of cm k"
          unfolding cm' map_of_update_key by simp
        with False look [of k] show ?thesis
          by (simp add: group_of_snoc)
      qed
      from d l show ?thesis
        unfolding derived_def by blast
    next
      case False
      with Some step have cm': "cm' = cm"
        by (simp add: forEach_body_def)
      from False tc have "\<not> Max (set (map timestamp ?g)) < timestamp m"
        by (simp add: getTime_def)
      with g0 have fl: "first_latest (?g @ [m]) = first_latest ?g"
        by (rule first_latest_snoc_not_later)
      have mx: "Max (set (map timestamp (?g @ [m]))) = Max (set (map timestamp ?g))"
        using first_latest_time [of "?g @ [m]"] first_latest_time [OF g0] fl by simp
      have l: "if group_of k (ms @ [m]) = [] then map_of cm' k = None
              else \<exists>c. map_of cm' k = Some c \<and> summary_of k (group_of k (ms @ [m])) c" for k
      proof (cases "k = ?k0")
        case True
        have "summary_of ?k0 (?g @ [m]) c"
          using sc hdg fl mx by (simp add: summary_of_def)
        with Some True show ?thesis
          by (simp add: group_of_snoc cm')
      next
        case False
        with look [of k] show ?thesis
          by (simp add: group_of_snoc cm')
      qed
      from dist l show ?thesis
        unfolding derived_def cm' by blast
    qed
  qed
qed

lemma derived_forEach:
  "derived cm done \<Longrightarrow> forEach rest cm = Inr cm' \<Longrightarrow>
   list_all (\<lambda>m. timestamp m \<in> \<int>) rest \<Longrightarrow> derived cm' (done @ rest)"
proof (induction rest arbitrary: cm "done")
  case Nil
  then show ?case by simp
next
  case (Cons m rest)
  from Cons.prems(2) obtain cm1 where b: "forEach_body cm m = Inr cm1"
    and r: "forEach rest cm1 = Inr cm'"
    by (auto split: sum.splits)
  from Cons.prems(3) have i: "timestamp m \<in> \<int>" and ri: "list_all (\<lambda>m. timestamp m \<in> \<int>) rest"
    by simp_all
  from derived_step [OF Cons.prems(1) b i] have "derived cm1 (done @ [m])" .
  from Cons.IH [OF this r ri] show ?case by simp
qed

lemma derived_empty: "derived [] []"
  unfolding derived_def group_of_def by simp

lemma forEach_derived:
  "forEach ms [] = Inr cm \<Longrightarrow> list_all (\<lambda>m. timestamp m \<in> \<int>) ms \<Longrightarrow> derived cm ms"
  using derived_forEach [OF derived_empty, of ms cm] by simp

lemma separator_unique:
  "CHR ''-'' \<notin> set x \<Longrightarrow> CHR ''-'' \<notin> set x' \<Longrightarrow>
   x @ CHR ''-'' # y = x' @ CHR ''-'' # y' \<Longrightarrow> x = x' \<and> y = y'"
proof (induction x arbitrary: x')
  case Nil
  then show ?case by (cases x') auto
next
  case (Cons a xs)
  then show ?case by (cases x') auto
qed

lemma sort_pair: "sort [a, b] = (if a \<le> b then [a, b] else [b, a])"
  by simp

lemma sort_pair_eq_iff:
  "(sort [a, b] = sort [a', b']) = ({a, b} = {a', b'})" for a :: "'a::linorder"
proof
  assume "sort [a, b] = sort [a', b']"
  then have "set (sort [a, b]) = set (sort [a', b'])" by simp
  then show "{a, b} = {a', b'}" by (simp only: set_sort) simp
next
  assume "{a, b} = {a', b'}"
  then have "(a = a' \<and> b = b') \<or> (a = b' \<and> b = a')"
    by (auto simp: doubleton_eq_iff)
  then show "sort [a, b] = sort [a', b']"
    unfolding sort_pair by auto
qed

lemma conversationId_pair:
  assumes "CHR ''-'' \<notin> set (sender m)" "CHR ''-'' \<notin> set (receiver m)"
    and "CHR ''-'' \<notin> set (sender m')" "CHR ''-'' \<notin> set (receiver m')"
  shows "(conversationId m = conversationId m')
     = ({sender m, receiver m} = {sender m', receiver m'})"
proof -
  obtain x y where xy: "sort [sender m, receiver m] = [x, y]"
    unfolding sort_pair by (cases "sender m \<le> receiver m") auto
  obtain x' y' where xy': "sort [sender m', receiver m'] = [x', y']"
    unfolding sort_pair by (cases "sender m' \<le> receiver m'") auto
  from xy have "set [x, y] = set [sender m, receiver m]"
    by (metis set_sort)
  then have "x = sender m \<or> x = receiver m"
    by (auto simp: doubleton_eq_iff)
  with assms(1,2) have d: "CHR ''-'' \<notin> set x" by auto
  from xy' have "set [x', y'] = set [sender m', receiver m']"
    by (metis set_sort)
  then have "x' = sender m' \<or> x' = receiver m'"
    by (auto simp: doubleton_eq_iff)
  with assms(3,4) have d': "CHR ''-'' \<notin> set x'" by auto
  have "(conversationId m = conversationId m') = (x @ CHR ''-'' # y = x' @ CHR ''-'' # y')"
    unfolding conversationId_def xy xy' by simp
  also have "\<dots> = ([x, y] = [x', y'])"
    using separator_unique [OF d d'] by auto
  also have "\<dots> = ({sender m, receiver m} = {sender m', receiver m'})"
    unfolding xy [symmetric] xy' [symmetric] by (rule sort_pair_eq_iff)
  finally show ?thesis .
qed

lemma summary_participants:
  assumes "summary_of k g c"
  shows "set (participants c) = {sender (hd g), receiver (hd g)}"
proof -
  from assms have "participants c = sort [sender (hd g), receiver (hd g)]"
    unfolding summary_of_def by blast
  then have "set (participants c) = set (sort [sender (hd g), receiver (hd g)])"
    by (rule arg_cong)
  then show ?thesis
    by (simp only: set_sort) simp
qed

lemma generate_unfold:
  assumes "generateConversationsFromMessages (Some w) ms st = Inr st'" and "w \<noteq> []"
  obtains cm where "forEach ms [] = Inr cm"
    and "st_conversations st' = sort_key (\<lambda>conv. - getTime (last_message_time conv))
           (filter (\<lambda>conv. toLowerCase w \<in> set (participants conv)) (map snd cm))"
  using assms
  by (auto simp: generateConversationsFromMessages_def split: sum.splits)

lemma derived_lookup:
  assumes "derived cm ms" and "(k, c) \<in> set cm"
  shows "group_of k ms \<noteq> [] \<and> summary_of k (group_of k ms) c"
proof -
  from assms(1) have dist: "distinct (map fst cm)"
    and look: "if group_of k ms = [] then map_of cm k = None
              else \<exists>c. map_of cm k = Some c \<and> summary_of k (group_of k ms) c"
    unfolding derived_def by blast+
  from dist assms(2) have "map_of cm k = Some c" by simp
  with look show ?thesis by (auto split: if_splits)
qed

lemma derived_present:
  assumes "derived cm ms" and "group_of k ms \<noteq> []"
  shows "\<exists>c. (k, c) \<in> set cm \<and> summary_of k (group_of k ms) c"
proof -
  from assms(1) have look: "if group_of k ms = [] then map_of cm k = None
              else \<exists>c. map_of cm k = Some c \<and> summary_of k (group_of k ms) c"
    unfolding derived_def by blast
  with assms(2) obtain c where "map_of cm k = Some c" "summary_of k (group_of k ms) c"
    by auto
  then show ?thesis by (auto dest: map_of_SomeD)
qed

lemma group_hd:
  assumes "group_of k ms \<noteq> []"
  shows "hd (group_of k ms) \<in> set ms \<and> conversationId (hd (group_of k ms)) = k"
proof -
  from assms have "hd (group_of k ms) \<in> set (group_of k ms)" by (rule hd_in_set)
  then show ?thesis by (simp add: group_of_def)
qed

text \<open>
  C10 (as amended): with timestamps that are whole numbers of milliseconds, every
  derived summary \<open>c\<close> belongs to the messages with its key (the sorted pair of sender
  and receiver joined by \<open>-\<close>), a non-empty group; its time is the maximal timestamp of
  the group, and its content and time are those of the first message of the input
  list, among the group, that attains the maximum: a later message with an equal
  timestamp never replaces it. Every group whose first message names the local identity
  has its summary. For identities without \<open>-\<close> the group of a summary is exactly the
  messages with the same unordered pair of sender and receiver.
\<close>

theorem summary_keeps_first_latest:
  assumes "generateConversationsFromMessages (Some w) messageList st = Inr st'" and "w \<noteq> []"
    and "list_all (\<lambda>m. timestamp m \<in> \<int>) messageList"
  shows "(\<forall>c \<in> set (st_conversations st').
            group_of (conv_id c) messageList \<noteq> []
            \<and> of_int (last_message_time c)
                = Max (set (map timestamp (group_of (conv_id c) messageList)))
            \<and> of_int (last_message_time c)
                = timestamp (first_latest (group_of (conv_id c) messageList))
            \<and> last_message c = content (first_latest (group_of (conv_id c) messageList)))
     \<and> (\<forall>k. group_of k messageList \<noteq> []
            \<and> toLowerCase w \<in> {sender (hd (group_of k messageList)),
                                receiver (hd (group_of k messageList))} \<longrightarrow>
            (\<exists>c \<in> set (st_conversations st'). conv_id c = k))
     \<and> ((\<forall>m \<in> set messageList. CHR ''-'' \<notin> set (sender m) \<and> CHR ''-'' \<notin> set (receiver m)) \<longrightarrow>
          (\<forall>c \<in> set (st_conversations st').
             group_of (conv_id c) messageList
               = filter (\<lambda>m. {sender m, receiver m} = set (participants c)) messageList))"
proof -
  from assms(1,2) obtain cm where fe: "forEach messageList [] = Inr cm"
    and cs: "st_conversations st' = sort_key (\<lambda>conv. - getTime (last_message_time conv))
           (filter (\<lambda>conv. toLowerCase w \<in> set (participants conv)) (map snd cm))"
    by (rule generate_unfold)
  from fe assms(3) have inv: "derived cm messageList" by (rule forEach_derived)
  have entry: "\<exists>k. (k, c) \<in> set cm" if "c \<in> set (st_conversations st')" for c
  proof -
    from that have "c \<in> set (map snd cm)"
      by (simp only: cs set_sort set_filter mem_Collect_eq)
    then show ?thesis by auto
  qed
  have sum: "group_of (conv_id c) messageList \<noteq> []
      \<and> summary_of (conv_id c) (group_of (conv_id c) messageList) c"
    if "c \<in> set (st_conversations st')" for c
  proof -
    from entry [OF that] obtain k where "(k, c) \<in> set cm" by blast
    from derived_lookup [OF inv this] show ?thesis
      by (auto simp: summary_of_def)
  qed
  have part1: "\<forall>c \<in> set (st_conversations st').
            group_of (conv_id c) messageList \<noteq> []
            \<and> of_int (last_message_time c)
                = Max (set (map timestamp (group_of (conv_id c) messageList)))
            \<and> of_int (last_message_time c)
                = timestamp (first_latest (group_of (conv_id c) messageList))
            \<and> last_message c = content (first_latest (group_of (conv_id c) messageList))"
    using sum by (auto simp: summary_of_def)
  have part2: "\<forall>k. group_of k messageList \<noteq> []
            \<and> toLowerCase w \<in> {sender (hd (group_of k messageList)),
                                receiver (hd (group_of k messageList))} \<longrightarrow>
            (\<exists>c \<in> set (st_conversations st'). conv_id c = k)"
  proof (intro allI impI)
    fix k
    assume h: "group_of k messageList \<noteq> []
            \<and> toLowerCase w \<in> {sender (hd (group_of k messageList)),
                                receiver (hd (group_of k messageList))}"
    with derived_present [OF inv, of k] obtain c where c: "(k, c) \<in> set cm"
      and s: "summary_of k (group_of k messageList) c"
      by blast
    from summary_participants [OF s] h have "toLowerCase w \<in> set (participants c)"
      by simp
    moreover from c have "c \<in> set (map snd cm)"
      by force
    ultimately have "c \<in> set (st_conversations st')"
      by (simp only: cs set_sort set_filter mem_Collect_eq)
    with s show "\<exists>c \<in> set (st_conversations st'). conv_id c = k"
      by (auto simp: summary_of_def)
  qed
  have part3: "(\<forall>m \<in> set messageList. CHR ''-'' \<notin> set (sender m) \<and> CHR ''-'' \<notin> set (receiver m)) \<longrightarrow>
          (\<forall>c \<in> set (st_conversations st').
             group_of (conv_id c) messageList
               = filter (\<lambda>m. {sender m, receiver m} = set (participants c)) messageList)"
  proof (intro impI ballI)
    fix c
    assume dash: "\<forall>m \<in> set messageList. CHR ''-'' \<notin> set (sender m) \<and> CHR ''-'' \<notin> set (receiver m)"
      and c: "c \<in> set (st_conversations st')"
    let ?g = "group_of (conv_id c) messageList"
    from sum [OF c] have g: "?g \<noteq> []" and s: "summary_of (conv_id c) ?g c" by blast+
    from group_hd [OF g] have h: "hd ?g \<in> set messageList" "conversationId (hd ?g) = conv_id c"
      by blast+
    from s have "set (participants c) = {sender (hd ?g), receiver (hd ?g)}"
      by (rule summary_participants)
    then have p: "set (participants c) = {sender (hd ?g), receiver (hd ?g)}" .
    have "(conversationId m = conv_id c)
        = ({sender m, receiver m} = set (participants c))"
      if "m \<in> set messageList" for m
    proof -
      from dash that have d1: "CHR ''-'' \<notin> set (sender m)" and d2: "CHR ''-'' \<notin> set (receiver m)"
        by blast+
      from dash h(1) have d3: "CHR ''-'' \<notin> set (sender (hd ?g))"
        and d4: "CHR ''-'' \<notin> set (receiver (hd ?g))"
        by blast+
      from conversationId_pair [OF d1 d2 d3 d4] show ?thesis
        by (simp only: h(2) p)
    qed
    then show "?g = filter (\<lambda>m. {sender m, receiver m} = set (participants c)) messageList"
      unfolding group_of_def by (intro filter_cong refl)
  qed
  from part1 part2 part3 show ?thesis by blast
qed

theorem summary_keeps_first_latest_witness:
  "list_all (\<lambda>m. timestamp m \<in> \<int>)
      [mk_message ''m1'' ''0xaa'' ''0xbb'' ''old'' 10,
       mk_message ''m2'' ''0xbb'' ''0xaa'' ''first'' 50,
       mk_message ''m3'' ''0xaa'' ''0xbb'' ''second'' 50,
       mk_message ''m4'' ''0xbb'' ''0xcc'' ''other'' 70]
   \<and> (case generateConversationsFromMessages (Some ''0xAA'')
          [mk_message ''m1'' ''0xaa'' ''0xbb'' ''old'' 10,
           mk_message ''m2'' ''0xbb'' ''0xaa'' ''first'' 50,
           mk_message ''m3'' ''0xaa'' ''0xbb'' ''second'' 50,
           mk_message ''m4'' ''0xbb'' ''0xcc'' ''other'' 70]
          initial_engine of
      Inl e \<Rightarrow> []
    | Inr st' \<Rightarrow> map (\<lambda>c. (conv_id c, last_message c, last_message_time c))
                   (st_conversations st'))
     = [(''0xaa-0xbb'', ''first'', 50)]"
proof -
  let ?ms = "[mk_message ''m1'' ''0xaa'' ''0xbb'' ''old'' 10,
           mk_message ''m2'' ''0xbb'' ''0xaa'' ''first'' 50,
           mk_message ''m3'' ''0xaa'' ''0xbb'' ''second'' 50,
           mk_message ''m4'' ''0xbb'' ''0xcc'' ''other'' 70]"
  let ?st = "\<lparr>st_messages = [],
      st_conversations = [\<lparr>conv_id = ''0xaa-0xbb'', participants = [''0xaa'', ''0xbb''],
         last_message = ''first'', last_message_time = 50, is_group = False\<rparr>]\<rparr>"
  have r: "generateConversationsFromMessages (Some ''0xAA'') ?ms initial_engine = Inr ?st"
    by (simp add: engine_eval)
  have w: "''0xAA'' \<noteq> []" by simp
  have i: "list_all (\<lambda>m. timestamp m \<in> \<int>) ?ms"
    by (simp add: mk_message_def)
  from summary_keeps_first_latest [OF r w i] r i show ?thesis
    by simp
qed

text \<open>
  Two failures of the claim as it was stated. Keys collide: the pair of \<open>a\<close> and \<open>b-c\<close>
  has two messages at its maximal timestamp 50, and the summary with these participants
  carries content and time of a message between \<open>a-b\<close> and \<open>c\<close>. Timestamps with a
  fraction: the stored time is truncated, so of two messages with the timestamp 1000.5
  the second passes the strict comparison against 1000 and replaces the first.
\<close>

theorem summary_replaced_counterexample:
  "(case generateConversationsFromMessages (Some ''a'')
          [mk_message ''m1'' ''a'' ''b-c'' ''first'' 50,
           mk_message ''m2'' ''b-c'' ''a'' ''second'' 50,
           mk_message ''m3'' ''a-b'' ''c'' ''other pair'' 60]
          initial_engine of
      Inl e \<Rightarrow> []
    | Inr st' \<Rightarrow> map (\<lambda>c. (participants c, last_message c, last_message_time c))
                   (st_conversations st'))
     = [([''a'', ''b-c''], ''other pair'', 60)]
   \<and> (case generateConversationsFromMessages (Some ''0xaa'')
          [mk_message ''m1'' ''0xaa'' ''0xbb'' ''first'' (2001 / 2),
           mk_message ''m2'' ''0xbb'' ''0xaa'' ''second'' (2001 / 2)]
          initial_engine of
      Inl e \<Rightarrow> []
    | Inr st' \<Rightarrow> map (\<lambda>c. (participants c, last_message c, last_message_time c))
                   (st_conversations st'))
     = [([''0xaa'', ''0xbb''], ''second'', 1000)]"
proof -
  have "\<lfloor>2001 / 2 :: rat\<rfloor> = 1000"
    by (simp add: floor_eq_iff)
  then show ?thesis
    by (simp add: engine_eval)
qed

end
